theory Spec2Isabelle
  imports Complex_Main
begin

section \<open>Data model\<close>

text \<open>
  An external item as the materializer reads it: \<open>child.dbId\<close> and \<open>child.name\<close>.
\<close>

record item =
  item_dbId :: nat
  item_name :: string

text \<open>
  The temporary tree built by \<open>createTmpTree\<close>: a JavaScript \<open>Map\<close> from names to
  subtrees (kept as an association list in insertion order) or an array of items.
  The source tells the two apart with \<open>children instanceof Map\<close>.
\<close>

datatype tmpTree =
  Group "(string \<times> tmpTree) list"
| Leaf "item list"

text \<open>
  A \<open>Map\<close> holds every key once; the association list can hold more, so the
  property is a predicate on the tree.
\<close>

fun distinct_keys :: "tmpTree \<Rightarrow> bool" where
  "distinct_keys (Group children) =
     (distinct (map fst children) \<and> (\<forall>entry \<in> set children. distinct_keys (snd entry)))"
| "distinct_keys (Leaf items) = True"

text \<open>
  The layout object: \<open>layout.types\<close>, \<open>layout.keys\<close> and \<open>layout.relations\<close>.
\<close>

record layout =
  types :: "string list"
  keys :: "string list"
  relations :: "string list"

text \<open>
  A JavaScript array read \<open>xs[i]\<close>: past the end it yields \<open>undefined\<close>, which is
  \<open>None\<close> here.
\<close>

definition index :: "'a list \<Rightarrow> nat \<Rightarrow> 'a option" where
  "index xs i = (if i < length xs then Some (xs ! i) else None)"

section \<open>The graph store\<close>

text \<open>
  Nodes are identified by their position in the list of nodes. A type or a relation
  name is a \<open>string option\<close>, since the materializer hands over whatever the layout
  lookup gave it.
\<close>

record node =
  node_name :: string
  node_type :: "string option"

record edge =
  edge_parent :: nat
  edge_relation :: "string option"
  edge_child :: nat
  edge_context :: nat

record graph =
  graph_nodes :: "node list"
  graph_edges :: "edge list"

text \<open>
  Modelled from the spec: the graph store primitives of the graph service, which is an
  external library (\<open>resolveChildren(parent, relation)\<close>, \<open>createNode(name, type)\<close> and
  \<open>attach(parent, child, relation, context)\<close>). \<open>getChildren\<close> returns the current
  children of the parent under the relation, oldest first.
\<close>

definition getChildren :: "graph \<Rightarrow> nat \<Rightarrow> string option \<Rightarrow> nat list" where
  "getChildren g parentId relationName =
     map edge_child
       (filter (\<lambda>e. edge_parent e = parentId \<and> edge_relation e = relationName) (graph_edges g))"

text \<open>
  Modelled from the spec: \<open>createNode\<close> (in the older file \<open>new SpinalNode(name, type)\<close>)
  makes a node nobody refers to yet and returns its identity.
\<close>

definition createNode :: "graph \<Rightarrow> string \<Rightarrow> string option \<Rightarrow> nat \<times> graph" where
  "createNode g name type =
     (length (graph_nodes g),
      g\<lparr>graph_nodes := graph_nodes g @ [\<lparr>node_name = name, node_type = type\<rparr>]\<rparr>)"

text \<open>
  Modelled from the spec: \<open>addChildInContext\<close> attaches the child to the parent under the
  relation within the context. The relation type is the same constant
  \<open>SPINAL_RELATION_TYPE\<close> at every call and is left out.
\<close>

definition addChildInContext :: "graph \<Rightarrow> nat \<Rightarrow> nat \<Rightarrow> nat \<Rightarrow> string option \<Rightarrow> graph" where
  "addChildInContext g parentId childId contextId relationName =
     g\<lparr>graph_edges := graph_edges g @
        [\<lparr>edge_parent = parentId, edge_relation = relationName,
          edge_child = childId, edge_context = contextId\<rparr>]\<rparr>"

text \<open>
  \<open>child.name.get()\<close> (in the older file \<open>child.getName().get()\<close>). The source reads
  the name of a node object the store returned; in a well-formed graph (\<open>wf_graph\<close>
  below) every child identity is a position in the list of nodes.
\<close>

definition getName :: "graph \<Rightarrow> nat \<Rightarrow> string" where
  "getName g child = node_name (graph_nodes g ! child)"

text \<open>
  A pending write is what the generator yields: the promise of an
  \<open>addChildInContext\<close> call (parent, child, context, relation) or of an
  \<open>addBIMObject\<close> call (context, parent, dbId, name). \<open>addBIMObject\<close> belongs to
  another external service; the model records the call and gives it no effect on the
  nodes and edges above.
\<close>

datatype pendingWrite =
  AddChildInContext nat nat nat "string option"
| AddBIMObject nat nat nat string

text \<open>
  What a run of the generator does, in order: a resolver call, a node creation, a
  yielded write.
\<close>

datatype event =
  GetChildren nat "string option"
| CreateNode nat string "string option"
| Yield pendingWrite

datatype error = TypeError | Failure string

section \<open>The recursive materializer (newer file)\<close>

text \<open>
  \<open>getChildrenByNames\<close>: one resolver call, then \<open>children.find\<close> for every requested
  name; \<open>undefined\<close> is \<open>None\<close>.
\<close>

definition getChildrenByNames ::
  "graph \<Rightarrow> nat \<Rightarrow> string list \<Rightarrow> string option \<Rightarrow> event list \<times> nat option list" where
  "getChildrenByNames g parent nodeNames relationName =
     (let children = getChildren g parent relationName
      in ([GetChildren parent relationName],
          map (\<lambda>name. find (\<lambda>child. getName g child = name) children) nodeNames))"

text \<open>
  \<open>generateGeoContextRec\<close> with its loop over \<open>foundChildren\<close>
  (\<open>generateGeoContextRec_loop\<close>). The loop reads
  \<open>entries.next().value\<close> once per found child and destructures it, which throws a
  \<open>TypeError\<close> when the iterator is exhausted. The result is the list of events and the
  graph the generator leaves when it has been drained.
\<close>

function generateGeoContextRec ::
    "nat \<Rightarrow> nat \<Rightarrow> tmpTree \<Rightarrow> layout \<Rightarrow> nat \<Rightarrow> graph \<Rightarrow> error + (event list \<times> graph)"
  and generateGeoContextRec_loop ::
    "nat \<Rightarrow> nat \<Rightarrow> nat option list \<Rightarrow> (string \<times> tmpTree) list \<Rightarrow> layout \<Rightarrow> nat \<Rightarrow> graph
       \<Rightarrow> error + (event list \<times> graph)"
where
  "generateGeoContextRec context parent (Group children) layout depth g =
     (let (evs0, foundChildren) =
            getChildrenByNames g parent (map fst children) (index (relations layout) depth)
      in case generateGeoContextRec_loop context parent foundChildren children layout depth g of
           Inl e \<Rightarrow> Inl e
         | Inr (evs, g') \<Rightarrow> Inr (evs0 @ evs, g'))"
| "generateGeoContextRec context parent (Leaf items) layout depth g =
     Inr (map (\<lambda>child. Yield (AddBIMObject context parent (item_dbId child) (item_name child)))
            items, g)"
| "generateGeoContextRec_loop context parent [] entries layout depth g = Inr ([], g)"
| "generateGeoContextRec_loop context parent (found # foundChildren) [] layout depth g = Inl TypeError"
| "generateGeoContextRec_loop context parent (found # foundChildren) ((name, value) # entries) layout depth g =
     (let (child, evs1, g1) =
            (case found of
               None \<Rightarrow>
                 (let (child, g0) = createNode g name (index (types layout) depth)
                  in (child,
                      [CreateNode child name (index (types layout) depth),
                       Yield (AddChildInContext parent child context
                                (index (relations layout) depth))],
                      addChildInContext g0 parent child context
                        (index (relations layout) depth)))
             | Some child \<Rightarrow> (child, [], g))
      in case generateGeoContextRec context child value layout (depth + 1) g1 of
           Inl e \<Rightarrow> Inl e
         | Inr (evs2, g2) \<Rightarrow>
             (case generateGeoContextRec_loop context parent foundChildren entries layout depth g2 of
                Inl e \<Rightarrow> Inl e
              | Inr (evs3, g3) \<Rightarrow> Inr (evs1 @ evs2 @ evs3, g3)))"
  by pat_completeness auto
termination
  by (relation "measure (\<lambda>x. case x of
          Inl (context, parent, t, rest) \<Rightarrow> 2 * size t
        | Inr (context, parent, foundChildren, entries, rest) \<Rightarrow>
            2 * size_list (size_prod (\<lambda>_. 0) size) entries + 1)") auto

section \<open>The recursive materializer (older file)\<close>

text \<open>
  \<open>getChild\<close>: one resolver call for one name, then the first child of that name;
  \<open>null\<close> is \<open>None\<close>.
\<close>

definition getChild :: "graph \<Rightarrow> nat \<Rightarrow> string \<Rightarrow> string option \<Rightarrow> event list \<times> nat option" where
  "getChild g parent nodeName relationName =
     (let children = getChildren g parent relationName
      in ([GetChildren parent relationName],
          find (\<lambda>child. getName g child = nodeName) children))"

text \<open>
  \<open>GenerateGeoContextRec\<close>: \<open>getChild\<close> is called for every key of the map before
  \<open>Promise.all\<close> is awaited, so every lookup reads the graph as it is on entry; the loop
  over \<open>parentChildren\<close> (\<open>GenerateGeoContextRec_loop\<close>) then runs as in the newer file.
\<close>

function GenerateGeoContextRec ::
    "nat \<Rightarrow> nat \<Rightarrow> tmpTree \<Rightarrow> layout \<Rightarrow> nat \<Rightarrow> graph \<Rightarrow> error + (event list \<times> graph)"
  and GenerateGeoContextRec_loop ::
    "nat \<Rightarrow> nat \<Rightarrow> nat option list \<Rightarrow> (string \<times> tmpTree) list \<Rightarrow> layout \<Rightarrow> nat \<Rightarrow> graph
       \<Rightarrow> error + (event list \<times> graph)"
where
  "GenerateGeoContextRec context parent (Group children) layout depth g =
     (let promises =
            map (\<lambda>(name, _). getChild g parent name (index (relations layout) depth)) children;
          parentChildren = map snd promises
      in case GenerateGeoContextRec_loop context parent parentChildren children layout depth g of
           Inl e \<Rightarrow> Inl e
         | Inr (evs, g') \<Rightarrow> Inr (concat (map fst promises) @ evs, g'))"
| "GenerateGeoContextRec context parent (Leaf items) layout depth g =
     Inr (map (\<lambda>child. Yield (AddBIMObject context parent (item_dbId child) (item_name child)))
            items, g)"
| "GenerateGeoContextRec_loop context parent [] entries layout depth g = Inr ([], g)"
| "GenerateGeoContextRec_loop context parent (found # parentChildren) [] layout depth g =
     Inl TypeError"
| "GenerateGeoContextRec_loop context parent (found # parentChildren) ((name, value) # entries)
       layout depth g =
     (let (child, evs1, g1) =
            (case found of
               None \<Rightarrow>
                 (let (child, g0) = createNode g name (index (types layout) depth)
                  in (child,
                      [CreateNode child name (index (types layout) depth),
                       Yield (AddChildInContext parent child context
                                (index (relations layout) depth))],
                      addChildInContext g0 parent child context
                        (index (relations layout) depth)))
             | Some child \<Rightarrow> (child, [], g))
      in case GenerateGeoContextRec context child value layout (depth + 1) g1 of
           Inl e \<Rightarrow> Inl e
         | Inr (evs2, g2) \<Rightarrow>
             (case GenerateGeoContextRec_loop context parent parentChildren entries layout depth g2 of
                Inl e \<Rightarrow> Inl e
              | Inr (evs3, g3) \<Rightarrow> Inr (evs1 @ evs2 @ evs3, g3)))"
  by pat_completeness auto
termination
  by (relation "measure (\<lambda>x. case x of
          Inl (context, parent, t, rest) \<Rightarrow> 2 * size t
        | Inr (context, parent, parentChildren, entries, rest) \<Rightarrow>
            2 * size_list (size_prod (\<lambda>_. 0) size) entries + 1)") auto

section \<open>Waiting for the file system\<close>

text \<open>
  \<open>waitForFileSystem\<close> polls at a fixed interval: it keeps the nodes whose entry in
  \<open>FileSystem._objects\<close> is still \<open>undefined\<close> and resolves at the first tick where none
  is left. \<open>FS t node\<close> says that at tick \<open>t\<close> the node of that write has its entry. The
  loop has no timeout; a poll that never ends is \<open>None\<close>, otherwise the result is the
  tick after the last poll.
\<close>

partial_function (option) waitForFileSystem ::
  "(nat \<Rightarrow> pendingWrite \<Rightarrow> bool) \<Rightarrow> nat \<Rightarrow> pendingWrite list \<Rightarrow> nat option" where
  "waitForFileSystem FS t nodes =
     (let nodes' = filter (\<lambda>node. \<not> FS t node) nodes
      in if nodes' = [] then Some (Suc t) else waitForFileSystem FS (Suc t) nodes')"

declare waitForFileSystem.simps [code]

section \<open>The orchestrators\<close>

definition MAX_NON_SYNCHRONIZED_NODES :: nat where
  "MAX_NON_SYNCHRONIZED_NODES = 300"

definition PROGRESS_BAR_SIZE_GET_PROPS :: real where
  "PROGRESS_BAR_SIZE_GET_PROPS = 10"

definition PROGRESS_BAR_SIZE_CREATE_TREE :: real where
  "PROGRESS_BAR_SIZE_CREATE_TREE = 10"

definition PROGRESS_BAR_SIZE_CREATE_GRAPH :: real where
  "PROGRESS_BAR_SIZE_CREATE_GRAPH = 80"

text \<open>
  The numbers \<open>progression.value\<close> can hold: a finite number, or \<open>Infinity\<close>, which the
  division by \<open>props.length\<close> gives when the list is empty. Finite numbers are exact
  here; JavaScript rounds them to doubles.
\<close>

datatype jsnum = Num real | PosInfinity

fun js_add :: "jsnum \<Rightarrow> jsnum \<Rightarrow> jsnum" where
  "js_add (Num a) (Num b) = Num (a + b)"
| "js_add a b = PosInfinity"

definition js_div :: "real \<Rightarrow> nat \<Rightarrow> jsnum" where
  "js_div a n = (if n = 0 then PosInfinity else Num (a / real n))"

datatype jsvalue = Undefined | TheContext nat

text \<open>
  What a run of an orchestrator does, in order. \<open>Gen e\<close> is a step of the generator,
  which runs only as far as the loop has pulled it.
\<close>

datatype action =
  Progression jsnum
| CreateTmpTree "item list"
| HasProperties "nat list" "string list"
| GetContext
| Gen event
| Push pendingWrite
| WaitForFileSystem "pendingWrite list"

text \<open>
  How a run ends: the promise resolves with a value, leaving a graph; or it never
  settles, because a wait polls forever; or it rejects.
\<close>

datatype outcome = Resolved jsvalue graph | Pending | Rejected error

record batcher =
  clock :: nat
  promises :: "pendingWrite list"

record batcherA = batcher +
  progression :: jsnum

text \<open>
  The \<open>for await\<close> loop of \<open>generateGeoContext\<close> (newer file) over what the generator
  does. A run that stalls in a wait ends there, with the trace up to the wait.
\<close>

fun generateGeoContext_loop ::
  "(nat \<Rightarrow> pendingWrite \<Rightarrow> bool) \<Rightarrow> jsnum \<Rightarrow> event list \<Rightarrow> batcherA
     \<Rightarrow> action list \<times> batcherA option" where
  "generateGeoContext_loop FS incrProg [] s = ([], Some s)"
| "generateGeoContext_loop FS incrProg (Yield promise # evs) s =
     (let s1 = s\<lparr>promises := promises s @ [promise]\<rparr>
      in if length (promises s1) = MAX_NON_SYNCHRONIZED_NODES then
           (let s2 = s1\<lparr>progression := js_add (progression s1) incrProg\<rparr>;
                tr = [Gen (Yield promise), Push promise, Progression (progression s2),
                      WaitForFileSystem (promises s2)]
            in case waitForFileSystem FS (clock s2) (promises s2) of
                 None \<Rightarrow> (tr, None)
               | Some t \<Rightarrow>
                   (let (tr', r) =
                      generateGeoContext_loop FS incrProg evs (s2\<lparr>clock := t, promises := []\<rparr>)
                    in (tr @ tr', r)))
         else (let (tr', r) = generateGeoContext_loop FS incrProg evs s1
               in (Gen (Yield promise) # Push promise # tr', r)))"
| "generateGeoContext_loop FS incrProg (e # evs) s =
     (let (tr', r) = generateGeoContext_loop FS incrProg evs s in (Gen e # tr', r))"

text \<open>
  \<open>generateGeoContext\<close> (newer file). \<open>createTmpTree\<close> is a function of the repository
  that the materializer only calls; it is a parameter here.
\<close>

definition generateGeoContext ::
  "(item list \<Rightarrow> tmpTree) \<Rightarrow> (nat \<Rightarrow> pendingWrite \<Rightarrow> bool) \<Rightarrow> nat \<Rightarrow> layout \<Rightarrow> item list
     \<Rightarrow> graph \<Rightarrow> action list \<times> outcome" where
  "generateGeoContext createTmpTree FS context layout props g =
     (let p1 = Num PROGRESS_BAR_SIZE_GET_PROPS;
          tmpTree = createTmpTree props;
          incrProg =
            js_div (PROGRESS_BAR_SIZE_CREATE_GRAPH * real MAX_NON_SYNCHRONIZED_NODES)
              (length props);
          p2 = js_add p1 (Num PROGRESS_BAR_SIZE_CREATE_TREE);
          tr0 = [Progression p1, CreateTmpTree props, Progression p2]
      in case generateGeoContextRec context context tmpTree layout 0 g of
           Inl e \<Rightarrow> (tr0, Rejected e)
         | Inr (evs, g') \<Rightarrow>
             (case generateGeoContext_loop FS incrProg evs
                     \<lparr>clock = 0, promises = [], progression = p2\<rparr> of
                (tr1, None) \<Rightarrow> (tr0 @ tr1, Pending)
              | (tr1, Some s) \<Rightarrow>
                  if length (promises s) \<noteq> 0 then
                    (case waitForFileSystem FS (clock s) (promises s) of
                       None \<Rightarrow> (tr0 @ tr1 @ [WaitForFileSystem (promises s)], Pending)
                     | Some t \<Rightarrow>
                         (tr0 @ tr1 @ [WaitForFileSystem (promises s), Progression (Num 100)],
                          Resolved Undefined g'))
                  else (tr0 @ tr1 @ [Progression (Num 100)], Resolved Undefined g')))"

text \<open>
  The \<open>for await\<close> loop of \<open>GenerateGeoContext\<close> (older file): the array is not emptied
  after a wait.
\<close>

fun GenerateGeoContext_loop ::
  "(nat \<Rightarrow> pendingWrite \<Rightarrow> bool) \<Rightarrow> event list \<Rightarrow> batcher \<Rightarrow> action list \<times> batcher option" where
  "GenerateGeoContext_loop FS [] s = ([], Some s)"
| "GenerateGeoContext_loop FS (Yield promise # evs) s =
     (let s1 = s\<lparr>promises := promises s @ [promise]\<rparr>
      in if length (promises s1) = MAX_NON_SYNCHRONIZED_NODES then
           (let tr = [Gen (Yield promise), Push promise, WaitForFileSystem (promises s1)]
            in case waitForFileSystem FS (clock s1) (promises s1) of
                 None \<Rightarrow> (tr, None)
               | Some t \<Rightarrow>
                   (let (tr', r) = GenerateGeoContext_loop FS evs (s1\<lparr>clock := t\<rparr>)
                    in (tr @ tr', r)))
         else (let (tr', r) = GenerateGeoContext_loop FS evs s1
               in (Gen (Yield promise) # Push promise # tr', r)))"
| "GenerateGeoContext_loop FS (e # evs) s =
     (let (tr', r) = GenerateGeoContext_loop FS evs s in (Gen e # tr', r))"

text \<open>
  \<open>GenerateGeoContext\<close> (older file). \<open>hasProperties\<close> and \<open>createTmpTree\<close> are functions
  of the repository that the orchestrator only calls; they are parameters here, and
  \<open>hasProperties\<close> gives the \<open>valid\<close> list or fails. \<open>bimObjectService.getContext()\<close> is
  an external call; it is recorded and taken to resolve.
\<close>

definition GenerateGeoContext ::
  "(nat list \<Rightarrow> string list \<Rightarrow> error + item list) \<Rightarrow> (item list \<Rightarrow> tmpTree)
     \<Rightarrow> (nat \<Rightarrow> pendingWrite \<Rightarrow> bool) \<Rightarrow> nat \<Rightarrow> layout \<Rightarrow> nat list
     \<Rightarrow> graph \<Rightarrow> action list \<times> outcome" where
  "GenerateGeoContext hasProperties createTmpTree FS context layout referencial g =
     (let tr0 = [HasProperties referencial (keys layout), GetContext]
      in case hasProperties referencial (keys layout) of
           Inl e \<Rightarrow> (tr0, Rejected e)
         | Inr props \<Rightarrow>
             if length props = 0 then (tr0, Resolved Undefined g)
             else
               (let tmpTree = createTmpTree props;
                    tr1 = tr0 @ [CreateTmpTree props]
                in case GenerateGeoContextRec context context tmpTree layout 0 g of
                     Inl e \<Rightarrow> (tr1, Rejected e)
                   | Inr (evs, g') \<Rightarrow>
                       (case GenerateGeoContext_loop FS evs \<lparr>clock = 0, promises = []\<rparr> of
                          (tr2, None) \<Rightarrow> (tr1 @ tr2, Pending)
                        | (tr2, Some s) \<Rightarrow>
                            if length (promises s) \<noteq> 0 then
                              (case waitForFileSystem FS (clock s) (promises s) of
                                 None \<Rightarrow> (tr1 @ tr2 @ [WaitForFileSystem (promises s)], Pending)
                               | Some t \<Rightarrow>
                                   (tr1 @ tr2 @ [WaitForFileSystem (promises s)],
                                    Resolved Undefined g'))
                            else (tr1 @ tr2, Resolved Undefined g'))))"

section \<open>Reading a trace\<close>

text \<open>The writes the generator yields, in emission order.\<close>

fun writes :: "event list \<Rightarrow> pendingWrite list" where
  "writes [] = []"
| "writes (Yield w # evs) = w # writes evs"
| "writes (e # evs) = writes evs"

text \<open>
  The two store calls of the creation branch, one after the other: the new node gets the
  next identity and is attached to the parent.
\<close>

definition attachNew ::
  "graph \<Rightarrow> nat \<Rightarrow> nat \<Rightarrow> string \<Rightarrow> string option \<Rightarrow> string option \<Rightarrow> graph" where
  "attachNew g context parent name type relationName =
     addChildInContext (snd (createNode g name type)) parent (length (graph_nodes g)) context
       relationName"

text \<open>The first child of each requested name, as both files compute it.\<close>

definition lookups :: "graph \<Rightarrow> nat \<Rightarrow> string option \<Rightarrow> string list \<Rightarrow> nat option list" where
  "lookups g parent relationName nodeNames =
     map (\<lambda>name. find (\<lambda>child. getName g child = name) (getChildren g parent relationName))
       nodeNames"

text \<open>The resolver calls of a run, in order.\<close>

fun resolver_calls :: "event list \<Rightarrow> (nat \<times> string option) list" where
  "resolver_calls [] = []"
| "resolver_calls (GetChildren parent relationName # evs) =
     (parent, relationName) # resolver_calls evs"
| "resolver_calls (e # evs) = resolver_calls evs"

text \<open>The maps of a tree, and the keys of all its maps.\<close>

fun count_groups :: "tmpTree \<Rightarrow> nat" where
  "count_groups (Group children) =
     Suc (sum_list (map (\<lambda>entry. count_groups (snd entry)) children))"
| "count_groups (Leaf items) = 0"

fun count_names :: "tmpTree \<Rightarrow> nat" where
  "count_names (Group children) =
     length children + sum_list (map (\<lambda>entry. count_names (snd entry)) children)"
| "count_names (Leaf items) = 0"

text \<open>
  \<open>groups_within n depth t\<close>: every map of \<open>t\<close>, whose root is at \<open>depth\<close>, lies at a
  depth below \<open>n\<close>. An array may lie at any depth.
\<close>

fun groups_within :: "nat \<Rightarrow> nat \<Rightarrow> tmpTree \<Rightarrow> bool" where
  "groups_within n depth (Group children) =
     (depth < n \<and> (\<forall>entry \<in> set children. groups_within n (Suc depth) (snd entry)))"
| "groups_within n depth (Leaf items) = True"

definition layout_length :: "layout \<Rightarrow> nat" where
  "layout_length layout = min (length (types layout)) (length (relations layout))"

text \<open>
  An event carries what the layout lookups gave: \<open>in_bounds\<close> says that none of them
  was \<open>undefined\<close>.
\<close>

fun in_bounds :: "event \<Rightarrow> bool" where
  "in_bounds (GetChildren parent relationName) = (relationName \<noteq> None)"
| "in_bounds (CreateNode child name type) = (type \<noteq> None)"
| "in_bounds (Yield (AddChildInContext parent child context relationName)) =
     (relationName \<noteq> None)"
| "in_bounds (Yield (AddBIMObject context parent dbId name)) = True"

text \<open>The scenario of the specification: two levels, one building, one floor, one chair.\<close>

definition scenario_layout :: layout where
  "scenario_layout =
     \<lparr>types = [''Building'', ''Floor''], keys = [''building'', ''floor''],
      relations = [''hasFloor'', ''hasRoom'']\<rparr>"

definition scenario_tree :: tmpTree where
  "scenario_tree =
     Group [(''B1'', Group [(''F1'', Leaf [\<lparr>item_dbId = 1, item_name = ''Chair''\<rparr>])])]"

definition scenario_graph :: graph where
  "scenario_graph =
     \<lparr>graph_nodes = [\<lparr>node_name = ''context'', node_type = Some ''context''\<rparr>],
      graph_edges = []\<rparr>"

text \<open>A map with two keys, each over an array of one item.\<close>

definition two_buildings_tree :: tmpTree where
  "two_buildings_tree =
     Group [(''B1'', Leaf [\<lparr>item_dbId = 1, item_name = ''Chair''\<rparr>]),
            (''B2'', Leaf [\<lparr>item_dbId = 2, item_name = ''Desk''\<rparr>])]"

text \<open>The events of a run other than its resolver calls.\<close>

fun effects :: "event list \<Rightarrow> event list" where
  "effects [] = []"
| "effects (GetChildren parent relationName # evs) = effects evs"
| "effects (e # evs) = e # effects evs"

text \<open>
  The node a write hangs its child or its item under, and the node whose creation a write
  announces.
\<close>

fun write_parent :: "pendingWrite \<Rightarrow> nat" where
  "write_parent (AddChildInContext parent child context relationName) = parent"
| "write_parent (AddBIMObject context parent dbId name) = parent"

fun created_by :: "pendingWrite \<Rightarrow> nat option" where
  "created_by (AddChildInContext parent child context relationName) = Some child"
| "created_by (AddBIMObject context parent dbId name) = None"

text \<open>Every edge of a well-formed graph joins two of its nodes.\<close>

definition wf_graph :: "graph \<Rightarrow> bool" where
  "wf_graph g =
     (\<forall>e \<in> set (graph_edges g).
        edge_parent e < length (graph_nodes g) \<and> edge_child e < length (graph_nodes g))"

text \<open>
  \<open>announced n ws\<close>: read in order, with \<open>n\<close> nodes known at the start, every write of
  \<open>ws\<close> has a known parent, and every creation write announces the next node.
\<close>

fun announced :: "nat \<Rightarrow> pendingWrite list \<Rightarrow> bool" where
  "announced n [] = True"
| "announced n (AddChildInContext parent child context relationName # ws) =
     (parent < n \<and> child = n \<and> announced (Suc n) ws)"
| "announced n (AddBIMObject context parent dbId name # ws) = (parent < n \<and> announced n ws)"

fun created :: "pendingWrite list \<Rightarrow> nat" where
  "created [] = 0"
| "created (AddChildInContext parent child context relationName # ws) = Suc (created ws)"
| "created (AddBIMObject context parent dbId name # ws) = created ws"

text \<open>The reuse scenario of the specification: the context already has the child B1.\<close>

definition reuse_graph :: graph where
  "reuse_graph =
     \<lparr>graph_nodes = [\<lparr>node_name = ''context'', node_type = Some ''context''\<rparr>,
                     \<lparr>node_name = ''B1'', node_type = Some ''Building''\<rparr>],
      graph_edges = [\<lparr>edge_parent = 0, edge_relation = Some ''hasFloor'', edge_child = 1,
                       edge_context = 0\<rparr>]\<rparr>"

text \<open>
  After each push of a run, the number of writes pushed since the last wait: the writes
  the batcher holds unconfirmed. The values \<open>progression.value\<close> takes, in order.
\<close>

fun unconfirmed :: "nat \<Rightarrow> action list \<Rightarrow> nat list" where
  "unconfirmed k [] = []"
| "unconfirmed k (Push w # tr) = Suc k # unconfirmed (Suc k) tr"
| "unconfirmed k (WaitForFileSystem ws # tr) = unconfirmed 0 tr"
| "unconfirmed k (a # tr) = unconfirmed k tr"

fun progress_history :: "action list \<Rightarrow> jsnum list" where
  "progress_history [] = []"
| "progress_history (Progression v # tr) = v # progress_history tr"
| "progress_history (a # tr) = progress_history tr"

text \<open>
  Items with names that differ, a filter that finds every reference valid, and the tree
  a one-key layout groups items into when every item has a value of its own for the key:
  one map, with one array of one item under every key.
\<close>

definition item_of :: "nat \<Rightarrow> item" where
  "item_of i = \<lparr>item_dbId = i, item_name = replicate (Suc i) (CHR ''i'')\<rparr>"

definition numbered_items :: "nat \<Rightarrow> item list" where
  "numbered_items n = map item_of [0..<n]"

definition all_valid :: "nat list \<Rightarrow> string list \<Rightarrow> error + item list" where
  "all_valid referencial wanted = Inr (map item_of referencial)"

definition one_group_per_item :: "item list \<Rightarrow> tmpTree" where
  "one_group_per_item props = Group (map (\<lambda>child. (item_name child, Leaf [child])) props)"

text \<open>The tree when all items have the same value for the key.\<close>

definition one_group_tree :: "item list \<Rightarrow> tmpTree" where
  "one_group_tree props = Group [(''R1'', Leaf props)]"

definition one_level_layout :: layout where
  "one_level_layout = \<lparr>types = [''Room''], keys = [''room''], relations = [''hasRoom'']\<rparr>"

text \<open>The values the progression takes over a number of flushes, from a value on.\<close>

fun flush_values :: "nat \<Rightarrow> jsnum \<Rightarrow> jsnum \<Rightarrow> jsnum list" where
  "flush_values 0 p incrProg = []"
| "flush_values (Suc n) p incrProg = js_add p incrProg # flush_values n (js_add p incrProg) incrProg"

text \<open>
  A second run over the same tree should only look up and attach items: \<open>replay\<close> drops
  the node creations and their writes from the events of a run.
\<close>

fun replay :: "event list \<Rightarrow> event list" where
  "replay [] = []"
| "replay (CreateNode child name type # evs) = replay evs"
| "replay (Yield (AddChildInContext parent child context relationName) # evs) = replay evs"
| "replay (e # evs) = e # replay evs"

text \<open>
  A graph is ranked when it is well formed and a ranking of the node identities grows
  along every edge, and ranks every identity not yet in use above all smaller ones (so
  the nodes to come rank above the present ones). A ranked graph has no cycle; a graph
  without cycles is ranked by a topological numbering of its nodes, continued by the
  identity.
\<close>

definition ranked :: "(nat \<Rightarrow> nat) \<Rightarrow> graph \<Rightarrow> bool" where
  "ranked rank g =
     (wf_graph g
      \<and> (\<forall>e \<in> set (graph_edges g). rank (edge_parent e) < rank (edge_child e))
      \<and> (\<forall>k j. length (graph_nodes g) \<le> k \<and> j < k \<longrightarrow> rank j < rank k))"

text \<open>
  \<open>extends g h\<close>: every lookup by name that finds a child in \<open>g\<close> finds the same child in
  \<open>h\<close>. \<open>below rank p g h\<close>: \<open>h\<close> is \<open>g\<close> with more nodes and more edges, and every new edge
  leaves a node ranked at least as \<open>p\<close>.
\<close>

definition extends :: "graph \<Rightarrow> graph \<Rightarrow> bool" where
  "extends g h =
     (\<forall>p r name c. snd (getChild g p name r) = Some c \<longrightarrow> snd (getChild h p name r) = Some c)"

definition below :: "(nat \<Rightarrow> nat) \<Rightarrow> nat \<Rightarrow> graph \<Rightarrow> graph \<Rightarrow> bool" where
  "below rank p g h =
     (\<exists>ns es. graph_nodes h = graph_nodes g @ ns \<and> graph_edges h = graph_edges g @ es
        \<and> (\<forall>e \<in> set es. rank p \<le> rank (edge_parent e)))"

text \<open>
  A graph with a cycle: the context, named A, is its own child. A layout with the same
  relation at both depths, and a tree in which the key B occurs under A and beside A.
\<close>

definition cyclic_graph :: graph where
  "cyclic_graph =
     \<lparr>graph_nodes = [\<lparr>node_name = ''A'', node_type = Some ''context''\<rparr>],
      graph_edges = [\<lparr>edge_parent = 0, edge_relation = Some ''hasPart'', edge_child = 0,
                       edge_context = 0\<rparr>]\<rparr>"

definition same_relation_layout :: layout where
  "same_relation_layout =
     \<lparr>types = [''Zone'', ''Room''], keys = [''zone'', ''room''],
      relations = [''hasPart'', ''hasPart'']\<rparr>"

definition cyclic_tree :: tmpTree where
  "cyclic_tree =
     Group [(''A'', Group [(''B'', Leaf [\<lparr>item_dbId = 1, item_name = ''Chair''\<rparr>])]),
            (''B'', Group [(''Z'', Leaf [\<lparr>item_dbId = 2, item_name = ''Desk''\<rparr>])])]"

text \<open>The graph that the first run over \<open>cyclic_tree\<close> leaves from \<open>cyclic_graph\<close>.\<close>

definition cyclic_graph_after :: graph where
  "cyclic_graph_after =
     \<lparr>graph_nodes =
        [\<lparr>node_name = ''A'', node_type = Some ''context''\<rparr>,
         \<lparr>node_name = ''B'', node_type = Some ''Room''\<rparr>,
         \<lparr>node_name = ''B'', node_type = Some ''Zone''\<rparr>,
         \<lparr>node_name = ''Z'', node_type = Some ''Room''\<rparr>],
      graph_edges =
        [\<lparr>edge_parent = 0, edge_relation = Some ''hasPart'', edge_child = 0, edge_context = 0\<rparr>,
         \<lparr>edge_parent = 0, edge_relation = Some ''hasPart'', edge_child = 1, edge_context = 0\<rparr>,
         \<lparr>edge_parent = 0, edge_relation = Some ''hasPart'', edge_child = 2, edge_context = 0\<rparr>,
         \<lparr>edge_parent = 2, edge_relation = Some ''hasPart'', edge_child = 3, edge_context = 0\<rparr>]\<rparr>"

section \<open>The walk and its order, in the words of the specification\<close>

text \<open>
  What a depth-first walk of the dataset against the graph visits: for a Group, per entry
  in insertion order, the name, the node the name resolved to, whether that node had to be
  created, and what was visited below it; for a Leaf, its items.
\<close>

datatype visited =
  Entries "(string \<times> nat \<times> bool \<times> visited) list"
| Items "item list"

text \<open>
  Depth-first pre-order over what was visited: the entries of a Group in order; for each
  entry the one write of its creation, if the node was created, and straight after it all
  the writes of its subtree; for a Leaf one attachment per item, in list order.
\<close>

fun preorder :: "nat \<Rightarrow> nat \<Rightarrow> layout \<Rightarrow> nat \<Rightarrow> visited \<Rightarrow> pendingWrite list" where
  "preorder ctx parent layout depth (Entries entries) =
     concat (map (\<lambda>(name, child, created, subtree).
                (if created
                 then [AddChildInContext parent child ctx (index (relations layout) depth)]
                 else []) @
                preorder ctx child layout (Suc depth) subtree) entries)"
| "preorder ctx parent layout depth (Items items) =
     map (\<lambda>child. AddBIMObject ctx parent (item_dbId child) (item_name child)) items"

text \<open>The dataset that was walked: what was visited without the nodes and the marks.\<close>

fun dataset_of :: "visited \<Rightarrow> tmpTree" where
  "dataset_of (Entries entries) =
     Group (map (\<lambda>(name, child, created, subtree). (name, dataset_of subtree)) entries)"
| "dataset_of (Items items) = Leaf items"

text \<open>
  The contract \<open>materialize(context, parent, datasetNode, layout, depth)\<close> of the
  specification, as it resolves nodes. For a Group: one lookup of the existing children
  of the parent under the relation of the depth; then, for each entry in insertion order,
  the existing child of that name is reused, or else a node of the type of the depth is
  created and attached to the parent under the relation within the context; then the
  subtree is walked with that child as parent, one level deeper. A Leaf creates nothing.
  This definition follows the specification and not the source; the generators of both
  files are compared with it below.
\<close>

function spec_walk ::
    "nat \<Rightarrow> nat \<Rightarrow> tmpTree \<Rightarrow> layout \<Rightarrow> nat \<Rightarrow> graph \<Rightarrow> visited \<times> graph"
  and spec_walk_entries ::
    "nat \<Rightarrow> nat \<Rightarrow> nat list \<Rightarrow> graph \<Rightarrow> (string \<times> tmpTree) list \<Rightarrow> layout \<Rightarrow> nat \<Rightarrow> graph
       \<Rightarrow> (string \<times> nat \<times> bool \<times> visited) list \<times> graph"
where
  "spec_walk ctx parent (Group children) layout depth g =
     (let existing = getChildren g parent (index (relations layout) depth);
          (entries, g') = spec_walk_entries ctx parent existing g children layout depth g
      in (Entries entries, g'))"
| "spec_walk ctx parent (Leaf items) layout depth g = (Items items, g)"
| "spec_walk_entries ctx parent existing g0 [] layout depth g = ([], g)"
| "spec_walk_entries ctx parent existing g0 ((name, subtree) # entries) layout depth g =
     (case find (\<lambda>child. getName g0 child = name) existing of
        Some child \<Rightarrow>
          (let (sub, g1) = spec_walk ctx child subtree layout (Suc depth) g;
               (rest, g2) = spec_walk_entries ctx parent existing g0 entries layout depth g1
           in ((name, child, False, sub) # rest, g2))
      | None \<Rightarrow>
          (let (child, g') = createNode g name (index (types layout) depth);
               g'' = addChildInContext g' parent child ctx (index (relations layout) depth);
               (sub, g1) = spec_walk ctx child subtree layout (Suc depth) g'';
               (rest, g2) = spec_walk_entries ctx parent existing g0 entries layout depth g1
           in ((name, child, True, sub) # rest, g2)))"
  by pat_completeness auto
termination
  by (relation "measure (\<lambda>x. case x of
          Inl (ctx, parent, t, rest) \<Rightarrow> 2 * size t
        | Inr (ctx, parent, existing, g0, entries, rest) \<Rightarrow>
            2 * size_list (size_prod (\<lambda>_. 0) size) entries + 1)") auto

text \<open>
  Two buildings, the first with two floors; on \<open>reuse_graph\<close> the first building exists
  and everything else has to be created.
\<close>

definition campus_tree :: tmpTree where
  "campus_tree =
     Group [(''B1'', Group [(''F1'', Leaf [\<lparr>item_dbId = 1, item_name = ''Chair''\<rparr>]),
                            (''F2'', Leaf [\<lparr>item_dbId = 2, item_name = ''Desk''\<rparr>])]),
            (''B2'', Group [(''F1'', Leaf [\<lparr>item_dbId = 3, item_name = ''Lamp''\<rparr>])])]"

section \<open>Unfolding the materializers\<close>

lemmas store_defs =
  getChildrenByNames_def getChild_def getChildren_def createNode_def addChildInContext_def
  getName_def index_def attachNew_def lookups_def

lemma loop_Some:
  "generateGeoContextRec_loop x p (Some c # fs) ((name, v) # es) L d g =
     (case generateGeoContextRec x c v L (Suc d) g of
        Inl e \<Rightarrow> Inl e
      | Inr (evs2, g2) \<Rightarrow>
          (case generateGeoContextRec_loop x p fs es L d g2 of
             Inl e \<Rightarrow> Inl e
           | Inr (evs3, g3) \<Rightarrow> Inr (evs2 @ evs3, g3)))"
  by (simp split: sum.splits prod.splits)

lemma loop_None:
  "generateGeoContextRec_loop x p (None # fs) ((name, v) # es) L d g =
     (case generateGeoContextRec x (length (graph_nodes g)) v L (Suc d)
             (attachNew g x p name (index (types L) d) (index (relations L) d)) of
        Inl e \<Rightarrow> Inl e
      | Inr (evs2, g2) \<Rightarrow>
          (case generateGeoContextRec_loop x p fs es L d g2 of
             Inl e \<Rightarrow> Inl e
           | Inr (evs3, g3) \<Rightarrow>
               Inr (CreateNode (length (graph_nodes g)) name (index (types L) d) #
                    Yield (AddChildInContext p (length (graph_nodes g)) x
                             (index (relations L) d)) #
                    evs2 @ evs3, g3)))"
  by (simp add: createNode_def attachNew_def split: sum.splits prod.splits)

lemma rec_Group:
  "generateGeoContextRec x p (Group children) L d g =
     (case generateGeoContextRec_loop x p
             (lookups g p (index (relations L) d) (map fst children)) children L d g of
        Inl e \<Rightarrow> Inl e
      | Inr (evs, g') \<Rightarrow> Inr (GetChildren p (index (relations L) d) # evs, g'))"
  by (simp add: getChildrenByNames_def lookups_def split: sum.splits prod.splits)

lemma loopB_Some:
  "GenerateGeoContextRec_loop x p (Some c # fs) ((name, v) # es) L d g =
     (case GenerateGeoContextRec x c v L (Suc d) g of
        Inl e \<Rightarrow> Inl e
      | Inr (evs2, g2) \<Rightarrow>
          (case GenerateGeoContextRec_loop x p fs es L d g2 of
             Inl e \<Rightarrow> Inl e
           | Inr (evs3, g3) \<Rightarrow> Inr (evs2 @ evs3, g3)))"
  by (simp split: sum.splits prod.splits)

lemma loopB_None:
  "GenerateGeoContextRec_loop x p (None # fs) ((name, v) # es) L d g =
     (case GenerateGeoContextRec x (length (graph_nodes g)) v L (Suc d)
             (attachNew g x p name (index (types L) d) (index (relations L) d)) of
        Inl e \<Rightarrow> Inl e
      | Inr (evs2, g2) \<Rightarrow>
          (case GenerateGeoContextRec_loop x p fs es L d g2 of
             Inl e \<Rightarrow> Inl e
           | Inr (evs3, g3) \<Rightarrow>
               Inr (CreateNode (length (graph_nodes g)) name (index (types L) d) #
                    Yield (AddChildInContext p (length (graph_nodes g)) x
                             (index (relations L) d)) #
                    evs2 @ evs3, g3)))"
  by (simp add: createNode_def attachNew_def split: sum.splits prod.splits)

lemma concat_getChild:
  "concat (map fst (map (\<lambda>(name, _). getChild g p name r) children)) =
     replicate (length children) (GetChildren p r)"
  by (induction children) (auto simp: getChild_def)

lemma snd_getChild:
  "map snd (map (\<lambda>(name, _). getChild g p name r) children) = lookups g p r (map fst children)"
  by (induction children) (auto simp: getChild_def lookups_def)

lemma recB_Group:
  "GenerateGeoContextRec x p (Group children) L d g =
     (case GenerateGeoContextRec_loop x p
             (lookups g p (index (relations L) d) (map fst children)) children L d g of
        Inl e \<Rightarrow> Inl e
      | Inr (evs, g') \<Rightarrow>
          Inr (replicate (length children) (GetChildren p (index (relations L) d)) @ evs, g'))"
  unfolding GenerateGeoContextRec.simps Let_def concat_getChild snd_getChild
  by (simp split: sum.splits prod.splits)

text \<open>From here on the equations above stand in for the defining ones.\<close>

declare generateGeoContextRec.simps(1) [simp del]

declare generateGeoContextRec_loop.simps(3) [simp del]

declare GenerateGeoContextRec.simps(1) [simp del]

declare GenerateGeoContextRec_loop.simps(3) [simp del]

lemmas run_simps = rec_Group loop_Some loop_None recB_Group loopB_Some loopB_None

text \<open>
  Induction over a run of the newer materializer: one case for an array, one for a map,
  and three for the loop (no child left, a child that was found, a child that is
  created).
\<close>

lemma loop_induct:
  assumes IH: "\<And>name v c d g evs g'. (name, v) \<in> set es \<Longrightarrow>
      generateGeoContextRec x c v L d g = Inr (evs, g') \<Longrightarrow> P c v d g evs g'"
    and Nil: "\<And>es g. Q [] es g [] g"
    and Found: "\<And>c fs name v es g evs2 g2 evs3 g3.
      generateGeoContextRec x c v L (Suc d) g = Inr (evs2, g2) \<Longrightarrow>
      P c v (Suc d) g evs2 g2 \<Longrightarrow>
      generateGeoContextRec_loop x p fs es L d g2 = Inr (evs3, g3) \<Longrightarrow>
      Q fs es g2 evs3 g3 \<Longrightarrow>
      Q (Some c # fs) ((name, v) # es) g (evs2 @ evs3) g3"
    and Created: "\<And>fs name v es g evs2 g2 evs3 g3.
      generateGeoContextRec x (length (graph_nodes g)) v L (Suc d)
          (attachNew g x p name (index (types L) d) (index (relations L) d)) = Inr (evs2, g2) \<Longrightarrow>
      P (length (graph_nodes g)) v (Suc d)
          (attachNew g x p name (index (types L) d) (index (relations L) d)) evs2 g2 \<Longrightarrow>
      generateGeoContextRec_loop x p fs es L d g2 = Inr (evs3, g3) \<Longrightarrow>
      Q fs es g2 evs3 g3 \<Longrightarrow>
      Q (None # fs) ((name, v) # es) g
        (CreateNode (length (graph_nodes g)) name (index (types L) d) #
         Yield (AddChildInContext p (length (graph_nodes g)) x (index (relations L) d)) #
         evs2 @ evs3) g3"
    and run: "generateGeoContextRec_loop x p fs es L d g = Inr (evs, g')"
  shows "Q fs es g evs g'"
  using IH run
proof (induction es arbitrary: fs g evs)
  case Nil1: Nil
  then show ?case using Nil by (cases fs) auto
next
  case (Cons entry es)
  obtain name v where entry: "entry = (name, v)" by (cases entry)
  show ?case
  proof (cases fs)
    case Nil2: Nil
    then show ?thesis using Cons.prems(2) Nil by auto
  next
    case fs: (Cons f fs')
    have IH': "\<And>fs g evs. generateGeoContextRec_loop x p fs es L d g = Inr (evs, g') \<Longrightarrow>
        Q fs es g evs g'"
      using Cons.IH Cons.prems(1) by (meson list.set_intros(2))
    have P': "\<And>c d g evs g'. generateGeoContextRec x c v L d g = Inr (evs, g') \<Longrightarrow>
        P c v d g evs g'"
      using Cons.prems(1)[of name v] entry by simp
    show ?thesis
    proof (cases f)
      case None
      from Cons.prems(2) obtain evs2 g2 evs3 where
        r: "generateGeoContextRec x (length (graph_nodes g)) v L (Suc d)
             (attachNew g x p name (index (types L) d) (index (relations L) d)) = Inr (evs2, g2)"
        and l: "generateGeoContextRec_loop x p fs' es L d g2 = Inr (evs3, g')"
        and e: "evs = CreateNode (length (graph_nodes g)) name (index (types L) d) #
                    Yield (AddChildInContext p (length (graph_nodes g)) x
                             (index (relations L) d)) #
                    evs2 @ evs3"
        unfolding entry fs None loop_None by (auto split: sum.splits)
      show ?thesis unfolding entry fs None e
        by (rule Created[OF r P'[OF r] l IH'[OF l]])
    next
      case (Some c)
      from Cons.prems(2) obtain evs2 g2 evs3 where
        r: "generateGeoContextRec x c v L (Suc d) g = Inr (evs2, g2)"
        and l: "generateGeoContextRec_loop x p fs' es L d g2 = Inr (evs3, g')"
        and e: "evs = evs2 @ evs3"
        unfolding entry fs Some loop_Some by (auto split: sum.splits)
      show ?thesis unfolding entry fs Some e
        by (rule Found[OF r P'[OF r] l IH'[OF l]])
    qed
  qed
qed

lemma run_induct [consumes 1, case_names Leaf Group Nil Found Created]:
  assumes run: "generateGeoContextRec x p t L d g = Inr (evs, g')"
    and LeafI: "\<And>p items d g.
      P p (Leaf items) d g
        (map (\<lambda>child. Yield (AddBIMObject x p (item_dbId child) (item_name child))) items) g"
    and GroupI: "\<And>p children d g evs g'.
      generateGeoContextRec_loop x p (lookups g p (index (relations L) d) (map fst children))
          children L d g = Inr (evs, g') \<Longrightarrow>
      Q p d (lookups g p (index (relations L) d) (map fst children)) children g evs g' \<Longrightarrow>
      P p (Group children) d g (GetChildren p (index (relations L) d) # evs) g'"
    and Nil: "\<And>p d es g. Q p d [] es g [] g"
    and Found: "\<And>p d c fs name v es g evs2 g2 evs3 g3.
      generateGeoContextRec x c v L (Suc d) g = Inr (evs2, g2) \<Longrightarrow>
      P c v (Suc d) g evs2 g2 \<Longrightarrow>
      generateGeoContextRec_loop x p fs es L d g2 = Inr (evs3, g3) \<Longrightarrow>
      Q p d fs es g2 evs3 g3 \<Longrightarrow>
      Q p d (Some c # fs) ((name, v) # es) g (evs2 @ evs3) g3"
    and Created: "\<And>p d fs name v es g evs2 g2 evs3 g3.
      generateGeoContextRec x (length (graph_nodes g)) v L (Suc d)
          (attachNew g x p name (index (types L) d) (index (relations L) d)) = Inr (evs2, g2) \<Longrightarrow>
      P (length (graph_nodes g)) v (Suc d)
          (attachNew g x p name (index (types L) d) (index (relations L) d)) evs2 g2 \<Longrightarrow>
      generateGeoContextRec_loop x p fs es L d g2 = Inr (evs3, g3) \<Longrightarrow>
      Q p d fs es g2 evs3 g3 \<Longrightarrow>
      Q p d (None # fs) ((name, v) # es) g
        (CreateNode (length (graph_nodes g)) name (index (types L) d) #
         Yield (AddChildInContext p (length (graph_nodes g)) x (index (relations L) d)) #
         evs2 @ evs3) g3"
  shows "P p t d g evs g'"
  using run
proof (induction t arbitrary: p d g evs g')
  case (Group children)
  from Group.prems obtain evs1 where
    l: "generateGeoContextRec_loop x p (lookups g p (index (relations L) d) (map fst children))
          children L d g = Inr (evs1, g')"
    and e: "evs = GetChildren p (index (relations L) d) # evs1"
    unfolding rec_Group by (auto split: sum.splits)
  have "Q p d (lookups g p (index (relations L) d) (map fst children)) children g evs1 g'"
  proof (rule loop_induct[where P = P and Q = "Q p d", OF _ _ _ _ l])
    fix name v c d g evs g'
    assume "(name, v) \<in> set children" "generateGeoContextRec x c v L d g = Inr (evs, g')"
    then show "P c v d g evs g'"
      using Group.IH[of "(name, v)" v] by simp
  qed (fact Nil Found Created)+
  then show ?case unfolding e by (rule GroupI[OF l])
next
  case (Leaf items)
  then show ?case using LeafI by auto
qed

lemma run_loop_induct [consumes 1, case_names Leaf Group Nil Found Created]:
  assumes run: "generateGeoContextRec_loop x p fs es L d g = Inr (evs, g')"
    and LeafI: "\<And>p items d g.
      P p (Leaf items) d g
        (map (\<lambda>child. Yield (AddBIMObject x p (item_dbId child) (item_name child))) items) g"
    and GroupI: "\<And>p children d g evs g'.
      generateGeoContextRec_loop x p (lookups g p (index (relations L) d) (map fst children))
          children L d g = Inr (evs, g') \<Longrightarrow>
      Q p d (lookups g p (index (relations L) d) (map fst children)) children g evs g' \<Longrightarrow>
      P p (Group children) d g (GetChildren p (index (relations L) d) # evs) g'"
    and Nil: "\<And>p d es g. Q p d [] es g [] g"
    and Found: "\<And>p d c fs name v es g evs2 g2 evs3 g3.
      generateGeoContextRec x c v L (Suc d) g = Inr (evs2, g2) \<Longrightarrow>
      P c v (Suc d) g evs2 g2 \<Longrightarrow>
      generateGeoContextRec_loop x p fs es L d g2 = Inr (evs3, g3) \<Longrightarrow>
      Q p d fs es g2 evs3 g3 \<Longrightarrow>
      Q p d (Some c # fs) ((name, v) # es) g (evs2 @ evs3) g3"
    and Created: "\<And>p d fs name v es g evs2 g2 evs3 g3.
      generateGeoContextRec x (length (graph_nodes g)) v L (Suc d)
          (attachNew g x p name (index (types L) d) (index (relations L) d)) = Inr (evs2, g2) \<Longrightarrow>
      P (length (graph_nodes g)) v (Suc d)
          (attachNew g x p name (index (types L) d) (index (relations L) d)) evs2 g2 \<Longrightarrow>
      generateGeoContextRec_loop x p fs es L d g2 = Inr (evs3, g3) \<Longrightarrow>
      Q p d fs es g2 evs3 g3 \<Longrightarrow>
      Q p d (None # fs) ((name, v) # es) g
        (CreateNode (length (graph_nodes g)) name (index (types L) d) #
         Yield (AddChildInContext p (length (graph_nodes g)) x (index (relations L) d)) #
         evs2 @ evs3) g3"
  shows "Q p d fs es g evs g'"
proof (rule loop_induct[where P = P and Q = "Q p d", OF _ _ _ _ run])
  fix name v c d g evs g'
  assume "generateGeoContextRec x c v L d g = Inr (evs, g')"
  then show "P c v d g evs g'"
    by (rule run_induct[where P = P and Q = Q]) (fact LeafI GroupI Nil Found Created)+
qed (fact Nil Found Created)+

text \<open>
  Induction over a run of the older materializer: one case for an array, one for a map,
  and three for the loop (no child left, a child that was found, a child that is
  created).
\<close>

lemma loopB_induct:
  assumes IH: "\<And>name v c d g evs g'. (name, v) \<in> set es \<Longrightarrow>
      GenerateGeoContextRec x c v L d g = Inr (evs, g') \<Longrightarrow> P c v d g evs g'"
    and Nil: "\<And>es g. Q [] es g [] g"
    and Found: "\<And>c fs name v es g evs2 g2 evs3 g3.
      GenerateGeoContextRec x c v L (Suc d) g = Inr (evs2, g2) \<Longrightarrow>
      P c v (Suc d) g evs2 g2 \<Longrightarrow>
      GenerateGeoContextRec_loop x p fs es L d g2 = Inr (evs3, g3) \<Longrightarrow>
      Q fs es g2 evs3 g3 \<Longrightarrow>
      Q (Some c # fs) ((name, v) # es) g (evs2 @ evs3) g3"
    and Created: "\<And>fs name v es g evs2 g2 evs3 g3.
      GenerateGeoContextRec x (length (graph_nodes g)) v L (Suc d)
          (attachNew g x p name (index (types L) d) (index (relations L) d)) = Inr (evs2, g2) \<Longrightarrow>
      P (length (graph_nodes g)) v (Suc d)
          (attachNew g x p name (index (types L) d) (index (relations L) d)) evs2 g2 \<Longrightarrow>
      GenerateGeoContextRec_loop x p fs es L d g2 = Inr (evs3, g3) \<Longrightarrow>
      Q fs es g2 evs3 g3 \<Longrightarrow>
      Q (None # fs) ((name, v) # es) g
        (CreateNode (length (graph_nodes g)) name (index (types L) d) #
         Yield (AddChildInContext p (length (graph_nodes g)) x (index (relations L) d)) #
         evs2 @ evs3) g3"
    and run: "GenerateGeoContextRec_loop x p fs es L d g = Inr (evs, g')"
  shows "Q fs es g evs g'"
  using IH run
proof (induction es arbitrary: fs g evs)
  case Nil1: Nil
  then show ?case using Nil by (cases fs) auto
next
  case (Cons entry es)
  obtain name v where entry: "entry = (name, v)" by (cases entry)
  show ?case
  proof (cases fs)
    case Nil2: Nil
    then show ?thesis using Cons.prems(2) Nil by auto
  next
    case fs: (Cons f fs')
    have IH': "\<And>fs g evs. GenerateGeoContextRec_loop x p fs es L d g = Inr (evs, g') \<Longrightarrow>
        Q fs es g evs g'"
      using Cons.IH Cons.prems(1) by (meson list.set_intros(2))
    have P': "\<And>c d g evs g'. GenerateGeoContextRec x c v L d g = Inr (evs, g') \<Longrightarrow>
        P c v d g evs g'"
      using Cons.prems(1)[of name v] entry by simp
    show ?thesis
    proof (cases f)
      case None
      from Cons.prems(2) obtain evs2 g2 evs3 where
        r: "GenerateGeoContextRec x (length (graph_nodes g)) v L (Suc d)
             (attachNew g x p name (index (types L) d) (index (relations L) d)) = Inr (evs2, g2)"
        and l: "GenerateGeoContextRec_loop x p fs' es L d g2 = Inr (evs3, g')"
        and e: "evs = CreateNode (length (graph_nodes g)) name (index (types L) d) #
                    Yield (AddChildInContext p (length (graph_nodes g)) x
                             (index (relations L) d)) #
                    evs2 @ evs3"
        unfolding entry fs None loopB_None by (auto split: sum.splits)
      show ?thesis unfolding entry fs None e
        by (rule Created[OF r P'[OF r] l IH'[OF l]])
    next
      case (Some c)
      from Cons.prems(2) obtain evs2 g2 evs3 where
        r: "GenerateGeoContextRec x c v L (Suc d) g = Inr (evs2, g2)"
        and l: "GenerateGeoContextRec_loop x p fs' es L d g2 = Inr (evs3, g')"
        and e: "evs = evs2 @ evs3"
        unfolding entry fs Some loopB_Some by (auto split: sum.splits)
      show ?thesis unfolding entry fs Some e
        by (rule Found[OF r P'[OF r] l IH'[OF l]])
    qed
  qed
qed

lemma runB_induct [consumes 1, case_names Leaf Group Nil Found Created]:
  assumes run: "GenerateGeoContextRec x p t L d g = Inr (evs, g')"
    and LeafI: "\<And>p items d g.
      P p (Leaf items) d g
        (map (\<lambda>child. Yield (AddBIMObject x p (item_dbId child) (item_name child))) items) g"
    and GroupI: "\<And>p children d g evs g'.
      GenerateGeoContextRec_loop x p (lookups g p (index (relations L) d) (map fst children))
          children L d g = Inr (evs, g') \<Longrightarrow>
      Q p d (lookups g p (index (relations L) d) (map fst children)) children g evs g' \<Longrightarrow>
      P p (Group children) d g
        (replicate (length children) (GetChildren p (index (relations L) d)) @ evs) g'"
    and Nil: "\<And>p d es g. Q p d [] es g [] g"
    and Found: "\<And>p d c fs name v es g evs2 g2 evs3 g3.
      GenerateGeoContextRec x c v L (Suc d) g = Inr (evs2, g2) \<Longrightarrow>
      P c v (Suc d) g evs2 g2 \<Longrightarrow>
      GenerateGeoContextRec_loop x p fs es L d g2 = Inr (evs3, g3) \<Longrightarrow>
      Q p d fs es g2 evs3 g3 \<Longrightarrow>
      Q p d (Some c # fs) ((name, v) # es) g (evs2 @ evs3) g3"
    and Created: "\<And>p d fs name v es g evs2 g2 evs3 g3.
      GenerateGeoContextRec x (length (graph_nodes g)) v L (Suc d)
          (attachNew g x p name (index (types L) d) (index (relations L) d)) = Inr (evs2, g2) \<Longrightarrow>
      P (length (graph_nodes g)) v (Suc d)
          (attachNew g x p name (index (types L) d) (index (relations L) d)) evs2 g2 \<Longrightarrow>
      GenerateGeoContextRec_loop x p fs es L d g2 = Inr (evs3, g3) \<Longrightarrow>
      Q p d fs es g2 evs3 g3 \<Longrightarrow>
      Q p d (None # fs) ((name, v) # es) g
        (CreateNode (length (graph_nodes g)) name (index (types L) d) #
         Yield (AddChildInContext p (length (graph_nodes g)) x (index (relations L) d)) #
         evs2 @ evs3) g3"
  shows "P p t d g evs g'"
  using run
proof (induction t arbitrary: p d g evs g')
  case (Group children)
  from Group.prems obtain evs1 where
    l: "GenerateGeoContextRec_loop x p (lookups g p (index (relations L) d) (map fst children))
          children L d g = Inr (evs1, g')"
    and e: "evs = replicate (length children) (GetChildren p (index (relations L) d)) @ evs1"
    unfolding recB_Group by (auto split: sum.splits)
  have "Q p d (lookups g p (index (relations L) d) (map fst children)) children g evs1 g'"
  proof (rule loopB_induct[where P = P and Q = "Q p d", OF _ _ _ _ l])
    fix name v c d g evs g'
    assume "(name, v) \<in> set children" "GenerateGeoContextRec x c v L d g = Inr (evs, g')"
    then show "P c v d g evs g'"
      using Group.IH[of "(name, v)" v] by simp
  qed (fact Nil Found Created)+
  then show ?case unfolding e by (rule GroupI[OF l])
next
  case (Leaf items)
  then show ?case using LeafI by auto
qed

lemma runB_loop_induct [consumes 1, case_names Leaf Group Nil Found Created]:
  assumes run: "GenerateGeoContextRec_loop x p fs es L d g = Inr (evs, g')"
    and LeafI: "\<And>p items d g.
      P p (Leaf items) d g
        (map (\<lambda>child. Yield (AddBIMObject x p (item_dbId child) (item_name child))) items) g"
    and GroupI: "\<And>p children d g evs g'.
      GenerateGeoContextRec_loop x p (lookups g p (index (relations L) d) (map fst children))
          children L d g = Inr (evs, g') \<Longrightarrow>
      Q p d (lookups g p (index (relations L) d) (map fst children)) children g evs g' \<Longrightarrow>
      P p (Group children) d g
        (replicate (length children) (GetChildren p (index (relations L) d)) @ evs) g'"
    and Nil: "\<And>p d es g. Q p d [] es g [] g"
    and Found: "\<And>p d c fs name v es g evs2 g2 evs3 g3.
      GenerateGeoContextRec x c v L (Suc d) g = Inr (evs2, g2) \<Longrightarrow>
      P c v (Suc d) g evs2 g2 \<Longrightarrow>
      GenerateGeoContextRec_loop x p fs es L d g2 = Inr (evs3, g3) \<Longrightarrow>
      Q p d fs es g2 evs3 g3 \<Longrightarrow>
      Q p d (Some c # fs) ((name, v) # es) g (evs2 @ evs3) g3"
    and Created: "\<And>p d fs name v es g evs2 g2 evs3 g3.
      GenerateGeoContextRec x (length (graph_nodes g)) v L (Suc d)
          (attachNew g x p name (index (types L) d) (index (relations L) d)) = Inr (evs2, g2) \<Longrightarrow>
      P (length (graph_nodes g)) v (Suc d)
          (attachNew g x p name (index (types L) d) (index (relations L) d)) evs2 g2 \<Longrightarrow>
      GenerateGeoContextRec_loop x p fs es L d g2 = Inr (evs3, g3) \<Longrightarrow>
      Q p d fs es g2 evs3 g3 \<Longrightarrow>
      Q p d (None # fs) ((name, v) # es) g
        (CreateNode (length (graph_nodes g)) name (index (types L) d) #
         Yield (AddChildInContext p (length (graph_nodes g)) x (index (relations L) d)) #
         evs2 @ evs3) g3"
  shows "Q p d fs es g evs g'"
proof (rule loopB_induct[where P = P and Q = "Q p d", OF _ _ _ _ run])
  fix name v c d g evs g'
  assume "GenerateGeoContextRec x c v L d g = Inr (evs, g')"
  then show "P c v d g evs g'"
    by (rule runB_induct[where P = P and Q = Q]) (fact LeafI GroupI Nil Found Created)+
qed (fact Nil Found Created)+

section \<open>The loop never runs out of entries\<close>

lemma loop_total:
  assumes "\<And>v x p L d g. v \<in> snd ` set entries \<Longrightarrow>
      \<exists>evs g'. generateGeoContextRec x p v L d g = Inr (evs, g')"
    and "length fs = length entries"
  shows "\<exists>evs g'. generateGeoContextRec_loop x p fs entries L d g = Inr (evs, g')"
  using assms
proof (induction entries arbitrary: fs g)
  case Nil
  then show ?case by simp
next
  case (Cons entry entries)
  obtain name v where entry: "entry = (name, v)" by (cases entry)
  obtain f fs' where fs: "fs = f # fs'" "length fs' = length entries"
    using Cons.prems(2) by (cases fs) auto
  have r: "\<exists>evs g'. generateGeoContextRec x c v L (Suc d) g1 = Inr (evs, g')" for c g1
    using Cons.prems(1)[of v] entry by simp
  have l: "\<exists>evs g'. generateGeoContextRec_loop x p fs' entries L d g2 = Inr (evs, g')" for g2
    using Cons.IH[OF _ fs(2)] Cons.prems(1) by simp
  show ?case
  proof (cases f)
    case None
    obtain evs2 g2 where r': "generateGeoContextRec x (length (graph_nodes g)) v L (Suc d)
             (attachNew g x p name (index (types L) d) (index (relations L) d)) = Inr (evs2, g2)"
      using r by blast
    obtain evs3 g3 where l': "generateGeoContextRec_loop x p fs' entries L d g2 = Inr (evs3, g3)"
      using l by blast
    show ?thesis unfolding entry fs(1) None loop_None by (simp add: r' l')
  next
    case (Some c)
    obtain evs2 g2 where r': "generateGeoContextRec x c v L (Suc d) g = Inr (evs2, g2)"
      using r by blast
    obtain evs3 g3 where l': "generateGeoContextRec_loop x p fs' entries L d g2 = Inr (evs3, g3)"
      using l by blast
    show ?thesis unfolding entry fs(1) Some loop_Some by (simp add: r' l')
  qed
qed

lemma rec_total: "\<exists>evs g'. generateGeoContextRec x p t L d g = Inr (evs, g')"
proof (induction t arbitrary: x p L d g)
  case (Group children)
  have "\<exists>evs g'. generateGeoContextRec_loop x p
          (lookups g p (index (relations L) d) (map fst children)) children L d g = Inr (evs, g')"
  proof (rule loop_total)
    fix v x p L d g assume "v \<in> snd ` set children"
    then obtain name where "(name, v) \<in> set children" by auto
    then show "\<exists>evs g'. generateGeoContextRec x p v L d g = Inr (evs, g')"
      using Group.IH[of "(name, v)" v] by simp
  qed (simp add: lookups_def)
  then show ?case unfolding rec_Group by (auto split: sum.splits)
next
  case (Leaf items)
  then show ?case by simp
qed

lemma loopB_total:
  assumes "\<And>v x p L d g. v \<in> snd ` set entries \<Longrightarrow>
      \<exists>evs g'. GenerateGeoContextRec x p v L d g = Inr (evs, g')"
    and "length fs = length entries"
  shows "\<exists>evs g'. GenerateGeoContextRec_loop x p fs entries L d g = Inr (evs, g')"
  using assms
proof (induction entries arbitrary: fs g)
  case Nil
  then show ?case by simp
next
  case (Cons entry entries)
  obtain name v where entry: "entry = (name, v)" by (cases entry)
  obtain f fs' where fs: "fs = f # fs'" "length fs' = length entries"
    using Cons.prems(2) by (cases fs) auto
  have r: "\<exists>evs g'. GenerateGeoContextRec x c v L (Suc d) g1 = Inr (evs, g')" for c g1
    using Cons.prems(1)[of v] entry by simp
  have l: "\<exists>evs g'. GenerateGeoContextRec_loop x p fs' entries L d g2 = Inr (evs, g')" for g2
    using Cons.IH[OF _ fs(2)] Cons.prems(1) by simp
  show ?case
  proof (cases f)
    case None
    obtain evs2 g2 where r': "GenerateGeoContextRec x (length (graph_nodes g)) v L (Suc d)
             (attachNew g x p name (index (types L) d) (index (relations L) d)) = Inr (evs2, g2)"
      using r by blast
    obtain evs3 g3 where l': "GenerateGeoContextRec_loop x p fs' entries L d g2 = Inr (evs3, g3)"
      using l by blast
    show ?thesis unfolding entry fs(1) None loopB_None by (simp add: r' l')
  next
    case (Some c)
    obtain evs2 g2 where r': "GenerateGeoContextRec x c v L (Suc d) g = Inr (evs2, g2)"
      using r by blast
    obtain evs3 g3 where l': "GenerateGeoContextRec_loop x p fs' entries L d g2 = Inr (evs3, g3)"
      using l by blast
    show ?thesis unfolding entry fs(1) Some loopB_Some by (simp add: r' l')
  qed
qed

lemma recB_total: "\<exists>evs g'. GenerateGeoContextRec x p t L d g = Inr (evs, g')"
proof (induction t arbitrary: x p L d g)
  case (Group children)
  have "\<exists>evs g'. GenerateGeoContextRec_loop x p
          (lookups g p (index (relations L) d) (map fst children)) children L d g = Inr (evs, g')"
  proof (rule loopB_total)
    fix v x p L d g assume "v \<in> snd ` set children"
    then obtain name where "(name, v) \<in> set children" by auto
    then show "\<exists>evs g'. GenerateGeoContextRec x p v L d g = Inr (evs, g')"
      using Group.IH[of "(name, v)" v] by simp
  qed (simp add: lookups_def)
  then show ?case unfolding recB_Group by (auto split: sum.splits)
next
  case (Leaf items)
  then show ?case by simp
qed

section \<open>Layout accesses\<close>

lemma index_Some: "i < length xs \<Longrightarrow> index xs i \<noteq> None"
  by (simp add: index_def)

lemma in_bounds_run:
  assumes "generateGeoContextRec x p t L d g = Inr (evs, g')"
  shows "groups_within (layout_length L) d t \<longrightarrow> list_all in_bounds evs"
  using assms
proof (induction rule: run_induct[where
      Q = "\<lambda>p d fs es g evs g'.
        d < layout_length L \<and> (\<forall>entry \<in> set es. groups_within (layout_length L) (Suc d) (snd entry))
         \<longrightarrow> list_all in_bounds evs"])
  case (Leaf p items d g)
  then show ?case by (simp add: list_all_iff)
next
  case (Group p children d g evs g')
  then show ?case by (simp add: layout_length_def index_Some)
next
  case (Nil p d es g)
  then show ?case by simp
next
  case (Found p d c fs name v es g evs2 g2 evs3 g3)
  then show ?case by simp
next
  case (Created p d fs name v es g evs2 g2 evs3 g3)
  then show ?case by (simp add: layout_length_def index_Some)
qed

lemma in_bounds_runB:
  assumes "GenerateGeoContextRec x p t L d g = Inr (evs, g')"
  shows "groups_within (layout_length L) d t \<longrightarrow> list_all in_bounds evs"
  using assms
proof (induction rule: runB_induct[where
      Q = "\<lambda>p d fs es g evs g'.
        d < layout_length L \<and> (\<forall>entry \<in> set es. groups_within (layout_length L) (Suc d) (snd entry))
         \<longrightarrow> list_all in_bounds evs"])
  case (Leaf p items d g)
  then show ?case by (simp add: list_all_iff)
next
  case (Group p children d g evs g')
  then show ?case by (auto simp: layout_length_def index_Some list_all_iff)
next
  case (Nil p d es g)
  then show ?case by simp
next
  case (Found p d c fs name v es g evs2 g2 evs3 g3)
  then show ?case by simp
next
  case (Created p d fs name v es g evs2 g2 evs3 g3)
  then show ?case by (simp add: layout_length_def index_Some)
qed

text \<open>
  C9. When every map of the tree lies at a depth below the length of the layout, every
  layout lookup of a run (the relation of a resolver call, the type of a created node,
  the relation of an attachment) is within bounds, in both files, and the run does not
  throw. An array is processed without any layout lookup: its run is the same under
  every layout and depth.
\<close>

theorem C9_layout_in_bounds:
  assumes "groups_within (layout_length layout) depth t"
  shows "(\<exists>evs g'. generateGeoContextRec context parent t layout depth g = Inr (evs, g')
            \<and> list_all in_bounds evs)
       \<and> (\<exists>evs g'. GenerateGeoContextRec context parent t layout depth g = Inr (evs, g')
            \<and> list_all in_bounds evs)
       \<and> generateGeoContextRec context parent (Leaf items) layout depth g =
           generateGeoContextRec context parent (Leaf items) layout' depth' g
       \<and> GenerateGeoContextRec context parent (Leaf items) layout depth g =
           GenerateGeoContextRec context parent (Leaf items) layout' depth' g
       \<and> (\<exists>evs. generateGeoContextRec context parent (Leaf items) layout' depth' g = Inr (evs, g)
            \<and> list_all in_bounds evs)"
proof -
  obtain evs g' where a: "generateGeoContextRec context parent t layout depth g = Inr (evs, g')"
    using rec_total by blast
  obtain evsB gB where b: "GenerateGeoContextRec context parent t layout depth g = Inr (evsB, gB)"
    using recB_total by blast
  have "list_all in_bounds evs" using in_bounds_run[OF a] assms by simp
  moreover have "list_all in_bounds evsB" using in_bounds_runB[OF b] assms by simp
  ultimately show ?thesis using a b by (simp add: list_all_iff)
qed

theorem C9_layout_in_bounds_witness:
  "groups_within (layout_length scenario_layout) 0 scenario_tree
   \<and> generateGeoContextRec 0 0 scenario_tree scenario_layout 0 scenario_graph =
       Inr ([GetChildren 0 (Some ''hasFloor''),
             CreateNode 1 ''B1'' (Some ''Building''),
             Yield (AddChildInContext 0 1 0 (Some ''hasFloor'')),
             GetChildren 1 (Some ''hasRoom''),
             CreateNode 2 ''F1'' (Some ''Floor''),
             Yield (AddChildInContext 1 2 0 (Some ''hasRoom'')),
             Yield (AddBIMObject 0 2 1 ''Chair'')],
            \<lparr>graph_nodes =
               [\<lparr>node_name = ''context'', node_type = Some ''context''\<rparr>,
                \<lparr>node_name = ''B1'', node_type = Some ''Building''\<rparr>,
                \<lparr>node_name = ''F1'', node_type = Some ''Floor''\<rparr>],
             graph_edges =
               [\<lparr>edge_parent = 0, edge_relation = Some ''hasFloor'', edge_child = 1,
                  edge_context = 0\<rparr>,
                \<lparr>edge_parent = 1, edge_relation = Some ''hasRoom'', edge_child = 2,
                  edge_context = 0\<rparr>]\<rparr>)
   \<and> (\<exists>evs g'. generateGeoContextRec 0 0 scenario_tree scenario_layout 0 scenario_graph =
         Inr (evs, g') \<and> list_all in_bounds evs)
   \<and> (\<exists>evs g'. GenerateGeoContextRec 0 0 scenario_tree scenario_layout 0 scenario_graph =
         Inr (evs, g') \<and> list_all in_bounds evs)"
proof -
  have h: "groups_within (layout_length scenario_layout) 0 scenario_tree"
    by (simp add: scenario_layout_def scenario_tree_def layout_length_def)
  have e: "generateGeoContextRec 0 0 scenario_tree scenario_layout 0 scenario_graph =
       Inr ([GetChildren 0 (Some ''hasFloor''),
             CreateNode 1 ''B1'' (Some ''Building''),
             Yield (AddChildInContext 0 1 0 (Some ''hasFloor'')),
             GetChildren 1 (Some ''hasRoom''),
             CreateNode 2 ''F1'' (Some ''Floor''),
             Yield (AddChildInContext 1 2 0 (Some ''hasRoom'')),
             Yield (AddBIMObject 0 2 1 ''Chair'')],
            \<lparr>graph_nodes =
               [\<lparr>node_name = ''context'', node_type = Some ''context''\<rparr>,
                \<lparr>node_name = ''B1'', node_type = Some ''Building''\<rparr>,
                \<lparr>node_name = ''F1'', node_type = Some ''Floor''\<rparr>],
             graph_edges =
               [\<lparr>edge_parent = 0, edge_relation = Some ''hasFloor'', edge_child = 1,
                  edge_context = 0\<rparr>,
                \<lparr>edge_parent = 1, edge_relation = Some ''hasRoom'', edge_child = 2,
                  edge_context = 0\<rparr>]\<rparr>)"
    by (simp add: scenario_layout_def scenario_tree_def scenario_graph_def store_defs run_simps)
  show ?thesis
    using h e C9_layout_in_bounds[OF h, of 0 0 scenario_graph "[]" scenario_layout 0] by simp
qed

section \<open>Resolver calls\<close>

lemma resolver_calls_append [simp]:
  "resolver_calls (evs @ evs') = resolver_calls evs @ resolver_calls evs'"
  by (induction evs rule: resolver_calls.induct) auto

lemma resolver_calls_leaf [simp]:
  "resolver_calls (map (\<lambda>child. Yield (f child)) items) = []"
  by (induction items) auto

lemma resolver_calls_replicate [simp]:
  "resolver_calls (replicate n (GetChildren p r)) = replicate n (p, r)"
  by (induction n) auto

lemma length_lookups [simp]: "length (lookups g p r names) = length names"
  by (simp add: lookups_def)

lemma resolver_calls_run:
  assumes "generateGeoContextRec x p t L d g = Inr (evs, g')"
  shows "length (resolver_calls evs) = count_groups t"
  using assms
proof (induction rule: run_induct[where
      Q = "\<lambda>p d fs es g evs g'. length fs = length es \<longrightarrow>
        length (resolver_calls evs) = sum_list (map (\<lambda>entry. count_groups (snd entry)) es)"])
  case (Leaf p items d g)
  then show ?case by simp
next
  case (Group p children d g evs g')
  then show ?case by simp
next
  case (Nil p d es g)
  then show ?case by simp
next
  case (Found p d c fs name v es g evs2 g2 evs3 g3)
  then show ?case by simp
next
  case (Created p d fs name v es g evs2 g2 evs3 g3)
  then show ?case by simp
qed

lemma resolver_calls_runB:
  assumes "GenerateGeoContextRec x p t L d g = Inr (evs, g')"
  shows "length (resolver_calls evs) = count_names t"
  using assms
proof (induction rule: runB_induct[where
      Q = "\<lambda>p d fs es g evs g'. length fs = length es \<longrightarrow>
        length (resolver_calls evs) = sum_list (map (\<lambda>entry. count_names (snd entry)) es)"])
  case (Leaf p items d g)
  then show ?case by simp
next
  case (Group p children d g evs g')
  then show ?case by simp
next
  case (Nil p d es g)
  then show ?case by simp
next
  case (Found p d c fs name v es g evs2 g2 evs3 g3)
  then show ?case by simp
next
  case (Created p d fs name v es g evs2 g2 evs3 g3)
  then show ?case by simp
qed

text \<open>
  C3, as stated, fails on the older file: for the one map of \<open>two_buildings_tree\<close> it
  calls the resolver twice on the same parent, once per key.
\<close>

theorem C3_counterexample:
  "count_groups two_buildings_tree = 1
   \<and> GenerateGeoContextRec 0 0 two_buildings_tree scenario_layout 0 scenario_graph =
       Inr ([GetChildren 0 (Some ''hasFloor''),
             GetChildren 0 (Some ''hasFloor''),
             CreateNode 1 ''B1'' (Some ''Building''),
             Yield (AddChildInContext 0 1 0 (Some ''hasFloor'')),
             Yield (AddBIMObject 0 1 1 ''Chair''),
             CreateNode 2 ''B2'' (Some ''Building''),
             Yield (AddChildInContext 0 2 0 (Some ''hasFloor'')),
             Yield (AddBIMObject 0 2 2 ''Desk'')],
            \<lparr>graph_nodes =
               [\<lparr>node_name = ''context'', node_type = Some ''context''\<rparr>,
                \<lparr>node_name = ''B1'', node_type = Some ''Building''\<rparr>,
                \<lparr>node_name = ''B2'', node_type = Some ''Building''\<rparr>],
             graph_edges =
               [\<lparr>edge_parent = 0, edge_relation = Some ''hasFloor'', edge_child = 1,
                  edge_context = 0\<rparr>,
                \<lparr>edge_parent = 0, edge_relation = Some ''hasFloor'', edge_child = 2,
                  edge_context = 0\<rparr>]\<rparr>)"
  by (simp add: two_buildings_tree_def scenario_layout_def scenario_graph_def store_defs run_simps)

text \<open>
  C3, amended. In the newer file a run makes exactly one resolver call per map of the
  tree, and the run over a map begins with that one call, on the parent and under the
  relation of the depth. In the older file a run makes one resolver call per key of every
  map, and the run over a map begins with as many calls on the parent as the map has keys.
\<close>

theorem C3_resolver_calls:
  "(\<exists>evs g'. generateGeoContextRec context parent t layout depth g = Inr (evs, g')
       \<and> length (resolver_calls evs) = count_groups t)
   \<and> (\<exists>evs g'. generateGeoContextRec context parent (Group children) layout depth g =
                  Inr (GetChildren parent (index (relations layout) depth) # evs, g')
       \<and> length (resolver_calls evs) =
           sum_list (map (\<lambda>entry. count_groups (snd entry)) children))
   \<and> (\<exists>evs g'. GenerateGeoContextRec context parent t layout depth g = Inr (evs, g')
       \<and> length (resolver_calls evs) = count_names t)
   \<and> (\<exists>evs g'. GenerateGeoContextRec context parent (Group children) layout depth g =
                  Inr (replicate (length children)
                         (GetChildren parent (index (relations layout) depth)) @ evs, g')
       \<and> length (resolver_calls evs) =
           sum_list (map (\<lambda>entry. count_names (snd entry)) children))"
proof -
  obtain evs g' where a: "generateGeoContextRec context parent t layout depth g = Inr (evs, g')"
    using rec_total by blast
  obtain evsB gB where b: "GenerateGeoContextRec context parent t layout depth g = Inr (evsB, gB)"
    using recB_total by blast
  obtain evs1 g1 where
    c: "generateGeoContextRec context parent (Group children) layout depth g = Inr (evs1, g1)"
    using rec_total by blast
  then obtain evs2 where c2: "evs1 = GetChildren parent (index (relations layout) depth) # evs2"
    unfolding rec_Group by (auto split: sum.splits)
  obtain evsB1 gB1 where
    e: "GenerateGeoContextRec context parent (Group children) layout depth g = Inr (evsB1, gB1)"
    using recB_total by blast
  then obtain evsB2 where e2: "evsB1 =
      replicate (length children) (GetChildren parent (index (relations layout) depth)) @ evsB2"
    unfolding recB_Group by (auto split: sum.splits)
  have "length (resolver_calls evs2) =
      sum_list (map (\<lambda>entry. count_groups (snd entry)) children)"
    using resolver_calls_run[OF c] c2 by simp
  moreover have "length (resolver_calls evsB2) =
      sum_list (map (\<lambda>entry. count_names (snd entry)) children)"
    using resolver_calls_runB[OF e] e2 by simp
  ultimately show ?thesis
    using a b c c2 e e2 resolver_calls_run[OF a] resolver_calls_runB[OF b] by auto
qed

theorem C3_resolver_calls_witness:
  "count_groups two_buildings_tree = 1 \<and> count_names two_buildings_tree = 2
   \<and> (\<exists>evs g'. generateGeoContextRec 0 0 two_buildings_tree scenario_layout 0 scenario_graph =
         Inr (evs, g') \<and> length (resolver_calls evs) = 1)
   \<and> (\<exists>evs g'. GenerateGeoContextRec 0 0 two_buildings_tree scenario_layout 0 scenario_graph =
         Inr (evs, g') \<and> length (resolver_calls evs) = 2)"
proof -
  have h1: "count_groups two_buildings_tree = 1"
    by (simp add: two_buildings_tree_def)
  have h2: "count_names two_buildings_tree = 2"
    by (simp add: two_buildings_tree_def)
  show ?thesis
    using C3_resolver_calls[of 0 0 two_buildings_tree scenario_layout 0 scenario_graph "[]"]
    unfolding h1 h2 by blast
qed

section \<open>The two materializers differ in their resolver calls only\<close>

lemma effects_append [simp]: "effects (evs @ evs') = effects evs @ effects evs'"
  by (induction evs rule: effects.induct) auto

lemma effects_replicate [simp]: "effects (replicate n (GetChildren p r)) = []"
  by (induction n) auto

lemma writes_append [simp]: "writes (evs @ evs') = writes evs @ writes evs'"
  by (induction evs rule: writes.induct) auto

lemma writes_effects [simp]: "writes (effects evs) = writes evs"
  by (induction evs rule: effects.induct) auto

lemma writes_replicate [simp]: "writes (replicate n (GetChildren p r)) = []"
  by (induction n) auto

lemma writes_leaf [simp]: "writes (map (\<lambda>child. Yield (f child)) items) = map f items"
  by (induction items) auto

lemma runB_run:
  assumes "GenerateGeoContextRec x p t L d g = Inr (evs, g')"
  shows "\<exists>evsA. generateGeoContextRec x p t L d g = Inr (evsA, g') \<and> effects evsA = effects evs"
  using assms
proof (induct rule: runB_induct[where
      Q = "\<lambda>p d fs es g evs g'. \<exists>evsA.
        generateGeoContextRec_loop x p fs es L d g = Inr (evsA, g') \<and> effects evsA = effects evs"])
  case (Leaf p items d g)
  then show ?case by simp
next
  case (Group p children d g evs g')
  then show ?case unfolding rec_Group by auto
next
  case (Nil p d es g)
  then show ?case by simp
next
  case (Found p d c fs name v es g evs2 g2 evs3 g3)
  then show ?case unfolding loop_Some by auto
next
  case (Created p d fs name v es g evs2 g2 evs3 g3)
  then show ?case unfolding loop_None by auto
qed

lemma run_runB:
  assumes "generateGeoContextRec x p t L d g = Inr (evs, g')"
  shows "\<exists>evsB. GenerateGeoContextRec x p t L d g = Inr (evsB, g') \<and> effects evsB = effects evs"
proof -
  obtain evsB gB where b: "GenerateGeoContextRec x p t L d g = Inr (evsB, gB)"
    using recB_total by blast
  from runB_run[OF b] assms show ?thesis using b by auto
qed

section \<open>Emission order\<close>

lemma announced_append:
  "announced n (ws @ ws') = (announced n ws \<and> announced (n + created ws) ws')"
  by (induction n ws rule: announced.induct) auto

lemma created_append [simp]: "created (ws @ ws') = created ws + created ws'"
  by (induction ws rule: created.induct) auto

lemma announced_leaf:
  "p < n \<Longrightarrow> announced n (map (\<lambda>child. AddBIMObject x p (f child) (h child)) items)"
  by (induction items) auto

lemma created_leaf [simp]:
  "created (map (\<lambda>child. AddBIMObject x p (f child) (h child)) items) = 0"
  by (induction items) auto

lemma find_in_set: "find P xs = Some c \<Longrightarrow> c \<in> set xs"
  by (auto simp: find_Some_iff)

lemma lookups_in_children:
  "Some c \<in> set (lookups g p r names) \<Longrightarrow> c \<in> set (getChildren g p r)"
  by (auto simp: lookups_def dest: find_in_set[OF sym])

lemma wf_graph_children:
  "wf_graph g \<Longrightarrow> c \<in> set (getChildren g p r) \<Longrightarrow> c < length (graph_nodes g)"
  by (auto simp: wf_graph_def getChildren_def)

lemma nodes_attachNew [simp]:
  "graph_nodes (attachNew g x p name ty r) = graph_nodes g @ [\<lparr>node_name = name, node_type = ty\<rparr>]"
  by (simp add: attachNew_def createNode_def addChildInContext_def)

lemma edges_attachNew [simp]:
  "graph_edges (attachNew g x p name ty r) =
     graph_edges g @ [\<lparr>edge_parent = p, edge_relation = r,
                       edge_child = length (graph_nodes g), edge_context = x\<rparr>]"
  by (simp add: attachNew_def createNode_def addChildInContext_def)

lemma lookups_less:
  "wf_graph g \<Longrightarrow> Some c \<in> set (lookups g p r names) \<Longrightarrow> c < length (graph_nodes g)"
  using lookups_in_children wf_graph_children by blast

lemma wf_graph_attachNew:
  "wf_graph g \<Longrightarrow> p < length (graph_nodes g) \<Longrightarrow> wf_graph (attachNew g x p name ty r)"
  by (auto simp: wf_graph_def less_Suc_eq)

lemma announced_run:
  assumes "generateGeoContextRec x p t L d g = Inr (evs, g')"
  shows "wf_graph g \<and> p < length (graph_nodes g) \<longrightarrow>
         wf_graph g' \<and> length (graph_nodes g') = length (graph_nodes g) + created (writes evs)
         \<and> announced (length (graph_nodes g)) (writes evs)"
  using assms
proof (induct rule: run_induct[where
      Q = "\<lambda>p d fs es g evs g'.
        wf_graph g \<and> p < length (graph_nodes g) \<and> (\<forall>c. Some c \<in> set fs \<longrightarrow> c < length (graph_nodes g))
        \<longrightarrow> wf_graph g' \<and> length (graph_nodes g') = length (graph_nodes g) + created (writes evs)
            \<and> announced (length (graph_nodes g)) (writes evs)"])
  case (Leaf p items d g)
  then show ?case by (simp add: announced_leaf)
next
  case (Group p children d g evs g')
  then show ?case using lookups_less by auto
next
  case (Nil p d es g)
  then show ?case by simp
next
  case (Found p d c fs name v es g evs2 g2 evs3 g3)
  show ?case
  proof (intro impI)
    assume a: "wf_graph g \<and> p < length (graph_nodes g) \<and>
       (\<forall>ca. Some ca \<in> set (Some c # fs) \<longrightarrow> ca < length (graph_nodes g))"
    then have 1: "wf_graph g2" "length (graph_nodes g2) = length (graph_nodes g) + created (writes evs2)"
      "announced (length (graph_nodes g)) (writes evs2)"
      using Found(2) by auto
    have 2: "wf_graph g3" "length (graph_nodes g3) = length (graph_nodes g2) + created (writes evs3)"
      "announced (length (graph_nodes g2)) (writes evs3)"
      using Found(4) a 1 by auto
    show "wf_graph g3 \<and>
       length (graph_nodes g3) = length (graph_nodes g) + created (writes (evs2 @ evs3)) \<and>
       announced (length (graph_nodes g)) (writes (evs2 @ evs3))"
      using 1 2 by (simp add: announced_append)
  qed
next
  case (Created p d fs name v es g evs2 g2 evs3 g3)
  let ?g1 = "attachNew g x p name (index (types L) d) (index (relations L) d)"
  show ?case
  proof (intro impI)
    assume a: "wf_graph g \<and> p < length (graph_nodes g) \<and>
       (\<forall>c. Some c \<in> set (None # fs) \<longrightarrow> c < length (graph_nodes g))"
    then have 0: "wf_graph ?g1" by (simp add: wf_graph_attachNew)
    have 1: "wf_graph g2" "length (graph_nodes g2) = Suc (length (graph_nodes g)) + created (writes evs2)"
      "announced (Suc (length (graph_nodes g))) (writes evs2)"
      using Created(2) 0 by auto
    have 2: "wf_graph g3" "length (graph_nodes g3) = length (graph_nodes g2) + created (writes evs3)"
      "announced (length (graph_nodes g2)) (writes evs3)"
      using Created(4) a 1 by auto
    show "wf_graph g3 \<and>
       length (graph_nodes g3) = length (graph_nodes g) +
         created (writes (CreateNode (length (graph_nodes g)) name (index (types L) d) #
            Yield (AddChildInContext p (length (graph_nodes g)) x (index (relations L) d)) #
            evs2 @ evs3)) \<and>
       announced (length (graph_nodes g))
         (writes (CreateNode (length (graph_nodes g)) name (index (types L) d) #
            Yield (AddChildInContext p (length (graph_nodes g)) x (index (relations L) d)) #
            evs2 @ evs3))"
      using a 1 2 by (simp add: announced_append)
  qed
qed

lemma announced_range:
  "announced n ws \<Longrightarrow> w \<in> set ws \<Longrightarrow> created_by w = Some k \<Longrightarrow> n \<le> k \<and> k < n + created ws"
  by (induction n ws rule: announced.induct) fastforce+

lemma announced_once:
  "announced n ws \<Longrightarrow> n \<le> k \<Longrightarrow> k < n + created ws \<Longrightarrow>
     length (filter (\<lambda>w. created_by w = Some k) ws) = 1"
proof (induction n ws rule: announced.induct)
  case (1 n)
  then show ?case by simp
next
  case (2 n parent child ctx relationName ws)
  show ?case
  proof (cases "k = n")
    case True
    have "filter (\<lambda>w. created_by w = Some k) ws = []"
      using announced_range[of "Suc n" ws _ k] 2(2) True by (auto simp: filter_empty_conv)
    then show ?thesis using 2(2) True by simp
  next
    case False
    then show ?thesis using 2 by simp
  qed
next
  case (3 n ctx parent dbId name ws)
  then show ?case by simp
qed

lemma announced_before:
  assumes "announced n (pre @ w # post)" and "n \<le> write_parent w"
  shows "\<exists>w' \<in> set pre. created_by w' = Some (write_parent w)"
proof -
  have a: "announced n pre" and b: "announced (n + created pre) (w # post)"
    using assms(1) by (simp_all add: announced_append)
  have "write_parent w < n + created pre"
    using b by (cases w) simp_all
  then have "length (filter (\<lambda>w'. created_by w' = Some (write_parent w)) pre) = 1"
    using announced_once[OF a assms(2)] by simp
  then have "filter (\<lambda>w'. created_by w' = Some (write_parent w)) pre \<noteq> []"
    by auto
  then show ?thesis by (auto simp: filter_empty_conv)
qed

lemma spec_walk_entries_found:
  "find (\<lambda>child. getName g0 child = name) existing = Some c \<Longrightarrow>
   spec_walk_entries x p existing g0 ((name, v) # es) L d g =
     ((name, c, False, fst (spec_walk x c v L (Suc d) g)) #
        fst (spec_walk_entries x p existing g0 es L d (snd (spec_walk x c v L (Suc d) g))),
      snd (spec_walk_entries x p existing g0 es L d (snd (spec_walk x c v L (Suc d) g))))"
  by (simp add: split_beta)

lemma spec_walk_entries_created:
  "find (\<lambda>child. getName g0 child = name) existing = None \<Longrightarrow>
   spec_walk_entries x p existing g0 ((name, v) # es) L d g =
     ((name, length (graph_nodes g), True,
         fst (spec_walk x (length (graph_nodes g)) v L (Suc d)
                (attachNew g x p name (index (types L) d) (index (relations L) d)))) #
        fst (spec_walk_entries x p existing g0 es L d
               (snd (spec_walk x (length (graph_nodes g)) v L (Suc d)
                  (attachNew g x p name (index (types L) d) (index (relations L) d))))),
      snd (spec_walk_entries x p existing g0 es L d
             (snd (spec_walk x (length (graph_nodes g)) v L (Suc d)
                (attachNew g x p name (index (types L) d) (index (relations L) d))))))"
  by (simp add: split_beta Let_def attachNew_def createNode_def)

lemma walk_Group:
  "spec_walk x p (Group children) L d g =
     (Entries (fst (spec_walk_entries x p (getChildren g p (index (relations L) d)) g children L d g)),
      snd (spec_walk_entries x p (getChildren g p (index (relations L) d)) g children L d g))"
  by (simp add: split_beta Let_def)

lemma run_walk:
  assumes "generateGeoContextRec x p t L d g = Inr (evs, g')"
  shows "writes evs = preorder x p L d (fst (spec_walk x p t L d g)) \<and> g' = snd (spec_walk x p t L d g)"
  using assms
proof (induct rule: run_induct[where
      Q = "\<lambda>p d fs es g evs g'. \<forall>existing g0.
        fs = map (\<lambda>name. find (\<lambda>child. getName g0 child = name) existing) (map fst es) \<longrightarrow>
        writes evs = preorder x p L d (Entries (fst (spec_walk_entries x p existing g0 es L d g)))
        \<and> g' = snd (spec_walk_entries x p existing g0 es L d g)"])
  case (Leaf p items d g)
  then show ?case by simp
next
  case (Group p children d g evs g')
  then show ?case unfolding walk_Group by (simp add: lookups_def)
next
  case (Nil p d es g)
  then show ?case by simp
next
  case (Found p d c fs name v es g evs2 g2 evs3 g3)
  show ?case
  proof (intro allI impI)
    fix existing g0
    assume a: "Some c # fs =
      map (\<lambda>name. find (\<lambda>child. getName g0 child = name) existing) (map fst ((name, v) # es))"
    then have f: "find (\<lambda>child. getName g0 child = name) existing = Some c"
      and fs: "fs = map (\<lambda>name. find (\<lambda>child. getName g0 child = name) existing) (map fst es)"
      by auto
    have 1: "writes evs2 = preorder x c L (Suc d) (fst (spec_walk x c v L (Suc d) g))"
      "g2 = snd (spec_walk x c v L (Suc d) g)"
      using Found(2) by auto
    have 2: "writes evs3 = preorder x p L d (Entries (fst (spec_walk_entries x p existing g0 es L d g2)))"
      "g3 = snd (spec_walk_entries x p existing g0 es L d g2)"
      using Found(4) fs by auto
    show "writes (evs2 @ evs3) =
        preorder x p L d (Entries (fst (spec_walk_entries x p existing g0 ((name, v) # es) L d g))) \<and>
        g3 = snd (spec_walk_entries x p existing g0 ((name, v) # es) L d g)"
      unfolding spec_walk_entries_found[OF f] using 1 2 by simp
  qed
next
  case (Created p d fs name v es g evs2 g2 evs3 g3)
  let ?g1 = "attachNew g x p name (index (types L) d) (index (relations L) d)"
  show ?case
  proof (intro allI impI)
    fix existing g0
    assume a: "None # fs =
      map (\<lambda>name. find (\<lambda>child. getName g0 child = name) existing) (map fst ((name, v) # es))"
    then have f: "find (\<lambda>child. getName g0 child = name) existing = None"
      and fs: "fs = map (\<lambda>name. find (\<lambda>child. getName g0 child = name) existing) (map fst es)"
      by auto
    have 1: "writes evs2 = preorder x (length (graph_nodes g)) L (Suc d)
                (fst (spec_walk x (length (graph_nodes g)) v L (Suc d) ?g1))"
      "g2 = snd (spec_walk x (length (graph_nodes g)) v L (Suc d) ?g1)"
      using Created(2) by auto
    have 2: "writes evs3 = preorder x p L d (Entries (fst (spec_walk_entries x p existing g0 es L d g2)))"
      "g3 = snd (spec_walk_entries x p existing g0 es L d g2)"
      using Created(4) fs by auto
    show "writes (CreateNode (length (graph_nodes g)) name (index (types L) d) #
            Yield (AddChildInContext p (length (graph_nodes g)) x (index (relations L) d)) #
            evs2 @ evs3) =
        preorder x p L d (Entries (fst (spec_walk_entries x p existing g0 ((name, v) # es) L d g))) \<and>
        g3 = snd (spec_walk_entries x p existing g0 ((name, v) # es) L d g)"
      unfolding spec_walk_entries_created[OF f] using 1 2 by simp
  qed
qed

lemma dataset_of_entries:
  assumes "\<And>name v c d g. (name, v) \<in> set es \<Longrightarrow> dataset_of (fst (spec_walk x c v L d g)) = v"
  shows "map (\<lambda>(name, child, created, subtree). (name, dataset_of subtree))
           (fst (spec_walk_entries x p existing g0 es L d g)) = es"
  using assms
proof (induction es arbitrary: g)
  case Nil
  then show ?case by simp
next
  case (Cons entry es)
  obtain name v where entry: "entry = (name, v)" by (cases entry)
  have v: "dataset_of (fst (spec_walk x c v L d' g'')) = v" for c d' g''
    using Cons.prems[of name v] entry by simp
  have rest: "map (\<lambda>(name, child, created, subtree). (name, dataset_of subtree))
           (fst (spec_walk_entries x p existing g0 es L d g'')) = es" for g''
  proof (rule Cons.IH)
    fix name' v' c' d' h
    assume "(name', v') \<in> set es"
    then show "dataset_of (fst (spec_walk x c' v' L d' h)) = v'"
      using Cons.prems[of name' v' c' d' h] by simp
  qed
  show ?case
  proof (cases "find (\<lambda>child. getName g0 child = name) existing")
    case None
    show ?thesis unfolding entry spec_walk_entries_created[OF None] by (simp add: v rest)
  next
    case (Some c)
    show ?thesis unfolding entry spec_walk_entries_found[OF Some] by (simp add: v rest)
  qed
qed

lemma dataset_of_walk: "dataset_of (fst (spec_walk x p t L d g)) = t"
proof (induction t arbitrary: p d g)
  case (Group children)
  have "map (\<lambda>(name, child, created, subtree). (name, dataset_of subtree))
           (fst (spec_walk_entries x p (getChildren g p (index (relations L) d)) g children L d g))
        = children"
    by (rule dataset_of_entries) (use Group.IH in auto)
  then show ?case unfolding walk_Group by simp
next
  case (Leaf items)
  then show ?case by simp
qed

lemma created_flags:
  "map (\<lambda>(name, child, created, subtree). (name, created))
       (fst (spec_walk_entries x p existing g0 es L d g)) =
   map (\<lambda>(name, subtree). (name, name \<notin> getName g0 ` set existing)) es"
proof (induction es arbitrary: g)
  case Nil
  then show ?case by simp
next
  case (Cons entry es)
  obtain name v where entry: "entry = (name, v)" by (cases entry)
  show ?case
  proof (cases "find (\<lambda>child. getName g0 child = name) existing")
    case None
    then have "name \<notin> getName g0 ` set existing"
      by (auto simp: find_None_iff)
    then show ?thesis unfolding entry spec_walk_entries_created[OF None] by (simp add: Cons.IH)
  next
    case (Some c)
    then have "name \<in> getName g0 ` set existing"
      by (auto simp: find_Some_iff)
    then show ?thesis unfolding entry spec_walk_entries_found[OF Some] by (simp add: Cons.IH)
  qed
qed

text \<open>
  C4. The writes of a run are the depth-first pre-order of the walk of the specification,
  in both files, and the run leaves the graph of that walk. The walk visits the dataset
  itself, every entry once and in order. An entry of the Group the run starts on is
  marked as created exactly when no child of the parent under the relation has its name
  when the Group is entered; by the pre-order such an entry has exactly one creation
  write, which comes before every write of its subtree, and the writes of its subtree
  come before those of the next entry. So, from a well-formed graph and an existing
  parent, a write under a node that the run created comes after the creation write of
  that node, and every created node has exactly one creation write.
\<close>

theorem C4_writes_in_preorder:
  "\<exists>evs evsB g' v.
      generateGeoContextRec ctx parent t layout depth g = Inr (evs, g')
    \<and> GenerateGeoContextRec ctx parent t layout depth g = Inr (evsB, g')
    \<and> spec_walk ctx parent t layout depth g = (v, g')
    \<and> writes evs = preorder ctx parent layout depth v
    \<and> writes evsB = preorder ctx parent layout depth v
    \<and> dataset_of v = t
    \<and> (\<forall>children. t = Group children \<longrightarrow>
          (\<exists>entries. v = Entries entries
             \<and> map (\<lambda>(name, child, created, subtree). (name, created)) entries =
               map (\<lambda>(name, subtree).
                      (name, name \<notin> getName g `
                         set (getChildren g parent (index (relations layout) depth))))
                 children))
    \<and> (wf_graph g \<and> parent < length (graph_nodes g) \<longrightarrow>
          (\<forall>pre w post. writes evs = pre @ w # post \<longrightarrow>
              write_parent w < length (graph_nodes g)
              \<or> (\<exists>w' \<in> set pre. created_by w' = Some (write_parent w)))
          \<and> (\<forall>c. length (graph_nodes g) \<le> c \<and> c < length (graph_nodes g') \<longrightarrow>
                length (filter (\<lambda>w. created_by w = Some c) (writes evs)) = 1))"
proof -
  obtain evs g' where a: "generateGeoContextRec ctx parent t layout depth g = Inr (evs, g')"
    using rec_total by blast
  obtain evsB where b: "GenerateGeoContextRec ctx parent t layout depth g = Inr (evsB, g')"
    and eq: "effects evsB = effects evs"
    using run_runB[OF a] by blast
  have wB: "writes evsB = writes evs"
    using eq by (metis writes_effects)
  define v where "v = fst (spec_walk ctx parent t layout depth g)"
  have w: "spec_walk ctx parent t layout depth g = (v, g')"
    and pre: "writes evs = preorder ctx parent layout depth v"
    using run_walk[OF a] by (simp_all add: v_def prod_eq_iff)
  have d: "dataset_of v = t"
    unfolding v_def by (rule dataset_of_walk)
  have flags: "\<exists>entries. v = Entries entries
      \<and> map (\<lambda>(name, child, created, subtree). (name, created)) entries =
        map (\<lambda>(name, subtree).
               (name, name \<notin> getName g `
                  set (getChildren g parent (index (relations layout) depth))))
          children"
    if "t = Group children" for children
    unfolding v_def that walk_Group fst_conv using created_flags by blast
  have first: "write_parent w < length (graph_nodes g)
        \<or> (\<exists>w' \<in> set pre. created_by w' = Some (write_parent w))"
    if "wf_graph g \<and> parent < length (graph_nodes g)" "writes evs = pre @ w # post"
    for pre w post
    using announced_before[of "length (graph_nodes g)" pre w post] announced_run[OF a] that
    by (cases "write_parent w < length (graph_nodes g)") auto
  have once: "length (filter (\<lambda>w. created_by w = Some c) (writes evs)) = 1"
    if "wf_graph g \<and> parent < length (graph_nodes g)"
      "length (graph_nodes g) \<le> c \<and> c < length (graph_nodes g')" for c
    using announced_once[of "length (graph_nodes g)" "writes evs" c] announced_run[OF a] that
    by simp
  have D: "wf_graph g \<and> parent < length (graph_nodes g) \<longrightarrow>
          (\<forall>pre w post. writes evs = pre @ w # post \<longrightarrow>
              write_parent w < length (graph_nodes g)
              \<or> (\<exists>w' \<in> set pre. created_by w' = Some (write_parent w)))
          \<and> (\<forall>c. length (graph_nodes g) \<le> c \<and> c < length (graph_nodes g') \<longrightarrow>
                length (filter (\<lambda>w. created_by w = Some c) (writes evs)) = 1)"
    using first once by blast
  have F: "\<forall>children. t = Group children \<longrightarrow>
          (\<exists>entries. v = Entries entries
             \<and> map (\<lambda>(name, child, created, subtree). (name, created)) entries =
               map (\<lambda>(name, subtree).
                      (name, name \<notin> getName g `
                         set (getChildren g parent (index (relations layout) depth))))
                 children)"
    using flags by blast
  have wB': "writes evsB = preorder ctx parent layout depth v"
    using wB pre by simp
  show ?thesis
    using a b w pre wB' d F D by blast
qed

theorem C4_writes_in_preorder_witness:
  "wf_graph reuse_graph \<and> 0 < length (graph_nodes reuse_graph)
   \<and> fst (spec_walk 0 0 campus_tree scenario_layout 0 reuse_graph) =
       Entries
         [(''B1'', 1, False,
             Entries [(''F1'', 2, True, Items [\<lparr>item_dbId = 1, item_name = ''Chair''\<rparr>]),
                      (''F2'', 3, True, Items [\<lparr>item_dbId = 2, item_name = ''Desk''\<rparr>])]),
          (''B2'', 4, True,
             Entries [(''F1'', 5, True, Items [\<lparr>item_dbId = 3, item_name = ''Lamp''\<rparr>])])]
   \<and> writes (fst (projr (generateGeoContextRec 0 0 campus_tree scenario_layout 0 reuse_graph))) =
       [AddChildInContext 1 2 0 (Some ''hasRoom''), AddBIMObject 0 2 1 ''Chair'',
        AddChildInContext 1 3 0 (Some ''hasRoom''), AddBIMObject 0 3 2 ''Desk'',
        AddChildInContext 0 4 0 (Some ''hasFloor''),
        AddChildInContext 4 5 0 (Some ''hasRoom''), AddBIMObject 0 5 3 ''Lamp'']
   \<and> writes (fst (projr (GenerateGeoContextRec 0 0 campus_tree scenario_layout 0 reuse_graph))) =
       [AddChildInContext 1 2 0 (Some ''hasRoom''), AddBIMObject 0 2 1 ''Chair'',
        AddChildInContext 1 3 0 (Some ''hasRoom''), AddBIMObject 0 3 2 ''Desk'',
        AddChildInContext 0 4 0 (Some ''hasFloor''),
        AddChildInContext 4 5 0 (Some ''hasRoom''), AddBIMObject 0 5 3 ''Lamp'']"
proof -
  have h1: "wf_graph reuse_graph"
    by (simp add: wf_graph_def reuse_graph_def)
  have h2: "0 < length (graph_nodes reuse_graph)"
    by (simp add: reuse_graph_def)
  have v0: "fst (spec_walk 0 0 campus_tree scenario_layout 0 reuse_graph) =
       Entries
         [(''B1'', 1, False,
             Entries [(''F1'', 2, True, Items [\<lparr>item_dbId = 1, item_name = ''Chair''\<rparr>]),
                      (''F2'', 3, True, Items [\<lparr>item_dbId = 2, item_name = ''Desk''\<rparr>])]),
          (''B2'', 4, True,
             Entries [(''F1'', 5, True, Items [\<lparr>item_dbId = 3, item_name = ''Lamp''\<rparr>])])]"
    by (simp add: campus_tree_def scenario_layout_def reuse_graph_def store_defs Let_def)
  obtain evs evsB g' v where
    a: "generateGeoContextRec 0 0 campus_tree scenario_layout 0 reuse_graph = Inr (evs, g')"
    and b: "GenerateGeoContextRec 0 0 campus_tree scenario_layout 0 reuse_graph = Inr (evsB, g')"
    and w: "spec_walk 0 0 campus_tree scenario_layout 0 reuse_graph = (v, g')"
    and pa: "writes evs = preorder 0 0 scenario_layout 0 v"
    and pb: "writes evsB = preorder 0 0 scenario_layout 0 v"
    using C4_writes_in_preorder[of 0 0 campus_tree scenario_layout 0 reuse_graph]
    by (elim exE conjE) (rule that)
  have v: "v = Entries
         [(''B1'', 1, False,
             Entries [(''F1'', 2, True, Items [\<lparr>item_dbId = 1, item_name = ''Chair''\<rparr>]),
                      (''F2'', 3, True, Items [\<lparr>item_dbId = 2, item_name = ''Desk''\<rparr>])]),
          (''B2'', 4, True,
             Entries [(''F1'', 5, True, Items [\<lparr>item_dbId = 3, item_name = ''Lamp''\<rparr>])])]"
    using v0 w by simp
  have l: "index (relations scenario_layout) 0 = Some ''hasFloor''"
    "index (relations scenario_layout) (Suc 0) = Some ''hasRoom''"
    by (simp_all add: scenario_layout_def index_def)
  show ?thesis
    unfolding a b sum.sel fst_conv pa pb v
    using h1 h2 v0 by (simp add: l)
qed

section \<open>Matching by name\<close>

lemma loop_append:
  "length fs1 = length es1 \<Longrightarrow>
   generateGeoContextRec_loop x p (fs1 @ fs2) (es1 @ es2) L d g =
     (case generateGeoContextRec_loop x p fs1 es1 L d g of
        Inl e \<Rightarrow> Inl e
      | Inr (evs1, g1) \<Rightarrow>
          (case generateGeoContextRec_loop x p fs2 es2 L d g1 of
             Inl e \<Rightarrow> Inl e
           | Inr (evs2, g2) \<Rightarrow> Inr (evs1 @ evs2, g2)))"
proof (induction es1 arbitrary: fs1 g)
  case Nil
  then show ?case by (simp split: sum.splits prod.splits)
next
  case (Cons entry es1)
  obtain name v where entry: "entry = (name, v)" by (cases entry)
  obtain f fs' where fs: "fs1 = f # fs'" "length fs' = length es1"
    using Cons.prems by (cases fs1) auto
  show ?case
  proof (cases f)
    case None
    show ?thesis
      unfolding entry fs(1) None append_Cons loop_None
      by (simp add: Cons.IH[OF fs(2)] split: sum.splits prod.splits)
  next
    case (Some c)
    show ?thesis
      unfolding entry fs(1) Some append_Cons loop_Some
      by (simp add: Cons.IH[OF fs(2)] split: sum.splits prod.splits)
  qed
qed

lemma loopB_append:
  "length fs1 = length es1 \<Longrightarrow>
   GenerateGeoContextRec_loop x p (fs1 @ fs2) (es1 @ es2) L d g =
     (case GenerateGeoContextRec_loop x p fs1 es1 L d g of
        Inl e \<Rightarrow> Inl e
      | Inr (evs1, g1) \<Rightarrow>
          (case GenerateGeoContextRec_loop x p fs2 es2 L d g1 of
             Inl e \<Rightarrow> Inl e
           | Inr (evs2, g2) \<Rightarrow> Inr (evs1 @ evs2, g2)))"
proof (induction es1 arbitrary: fs1 g)
  case Nil
  then show ?case by (simp split: sum.splits prod.splits)
next
  case (Cons entry es1)
  obtain name v where entry: "entry = (name, v)" by (cases entry)
  obtain f fs' where fs: "fs1 = f # fs'" "length fs' = length es1"
    using Cons.prems by (cases fs1) auto
  show ?case
  proof (cases f)
    case None
    show ?thesis
      unfolding entry fs(1) None append_Cons loopB_None
      by (simp add: Cons.IH[OF fs(2)] split: sum.splits prod.splits)
  next
    case (Some c)
    show ?thesis
      unfolding entry fs(1) Some append_Cons loopB_Some
      by (simp add: Cons.IH[OF fs(2)] split: sum.splits prod.splits)
  qed
qed

lemma lookups_append [simp]:
  "lookups g p r (names @ names') = lookups g p r names @ lookups g p r names'"
  by (simp add: lookups_def)

lemma lookups_Cons [simp]:
  "lookups g p r (name # names) = snd (getChild g p name r) # lookups g p r names"
  by (simp add: lookups_def getChild_def)

lemma lookups_Nil [simp]: "lookups g p r [] = []"
  by (simp add: lookups_def)

lemma loop_total':
  "\<exists>evs g'. generateGeoContextRec_loop x p (lookups h q r (map fst es)) es L d g = Inr (evs, g')"
  by (rule loop_total) (use rec_total in auto)

lemma loopB_total':
  "\<exists>evs g'. GenerateGeoContextRec_loop x p (lookups h q r (map fst es)) es L d g = Inr (evs, g')"
  by (rule loopB_total) (use recB_total in auto)

lemma entry_found:
  assumes "snd (getChild g p name (index (relations L) d)) = Some c"
  shows "\<exists>evs1 g1 evs2 g2 evs3 g3.
      generateGeoContextRec_loop x p (lookups g p (index (relations L) d) (map fst es1)) es1 L d g
        = Inr (evs1, g1)
    \<and> generateGeoContextRec x c v L (Suc d) g1 = Inr (evs2, g2)
    \<and> generateGeoContextRec_loop x p (lookups g p (index (relations L) d) (map fst es2)) es2 L d g2
        = Inr (evs3, g3)
    \<and> generateGeoContextRec x p (Group (es1 @ (name, v) # es2)) L d g
        = Inr (GetChildren p (index (relations L) d) # evs1 @ evs2 @ evs3, g3)"
proof -
  let ?r = "index (relations L) d"
  obtain evs1 g1 where 1:
    "generateGeoContextRec_loop x p (lookups g p ?r (map fst es1)) es1 L d g = Inr (evs1, g1)"
    using loop_total' by blast
  obtain evs2 g2 where 2: "generateGeoContextRec x c v L (Suc d) g1 = Inr (evs2, g2)"
    using rec_total by blast
  obtain evs3 g3 where 3:
    "generateGeoContextRec_loop x p (lookups g p ?r (map fst es2)) es2 L d g2 = Inr (evs3, g3)"
    using loop_total' by blast
  have "generateGeoContextRec x p (Group (es1 @ (name, v) # es2)) L d g
        = Inr (GetChildren p ?r # evs1 @ evs2 @ evs3, g3)"
    unfolding rec_Group
    by (simp add: loop_append assms 1 loop_Some 2 3)
  then show ?thesis using 1 2 3 by blast
qed

lemma entry_created:
  assumes "snd (getChild g p name (index (relations L) d)) = None"
  shows "\<exists>evs1 g1 evs2 g2 evs3 g3.
      generateGeoContextRec_loop x p (lookups g p (index (relations L) d) (map fst es1)) es1 L d g
        = Inr (evs1, g1)
    \<and> generateGeoContextRec x (length (graph_nodes g1)) v L (Suc d)
          (attachNew g1 x p name (index (types L) d) (index (relations L) d)) = Inr (evs2, g2)
    \<and> generateGeoContextRec_loop x p (lookups g p (index (relations L) d) (map fst es2)) es2 L d g2
        = Inr (evs3, g3)
    \<and> generateGeoContextRec x p (Group (es1 @ (name, v) # es2)) L d g
        = Inr (GetChildren p (index (relations L) d) # evs1 @
               [CreateNode (length (graph_nodes g1)) name (index (types L) d),
                Yield (AddChildInContext p (length (graph_nodes g1)) x (index (relations L) d))] @
               evs2 @ evs3, g3)"
proof -
  let ?r = "index (relations L) d"
  obtain evs1 g1 where 1:
    "generateGeoContextRec_loop x p (lookups g p ?r (map fst es1)) es1 L d g = Inr (evs1, g1)"
    using loop_total' by blast
  obtain evs2 g2 where 2: "generateGeoContextRec x (length (graph_nodes g1)) v L (Suc d)
          (attachNew g1 x p name (index (types L) d) ?r) = Inr (evs2, g2)"
    using rec_total by blast
  obtain evs3 g3 where 3:
    "generateGeoContextRec_loop x p (lookups g p ?r (map fst es2)) es2 L d g2 = Inr (evs3, g3)"
    using loop_total' by blast
  have "generateGeoContextRec x p (Group (es1 @ (name, v) # es2)) L d g
        = Inr (GetChildren p ?r # evs1 @
               [CreateNode (length (graph_nodes g1)) name (index (types L) d),
                Yield (AddChildInContext p (length (graph_nodes g1)) x ?r)] @
               evs2 @ evs3, g3)"
    unfolding rec_Group
    by (simp add: loop_append assms 1 loop_None 2 3)
  then show ?thesis using 1 2 3 by blast
qed

lemma entryB_found:
  assumes "snd (getChild g p name (index (relations L) d)) = Some c"
  shows "\<exists>evs1 g1 evs2 g2 evs3 g3.
      GenerateGeoContextRec_loop x p (lookups g p (index (relations L) d) (map fst es1)) es1 L d g
        = Inr (evs1, g1)
    \<and> GenerateGeoContextRec x c v L (Suc d) g1 = Inr (evs2, g2)
    \<and> GenerateGeoContextRec_loop x p (lookups g p (index (relations L) d) (map fst es2)) es2 L d g2
        = Inr (evs3, g3)
    \<and> GenerateGeoContextRec x p (Group (es1 @ (name, v) # es2)) L d g
        = Inr (replicate (Suc (length es1 + length es2)) (GetChildren p (index (relations L) d)) @ evs1 @ evs2 @ evs3, g3)"
proof -
  let ?r = "index (relations L) d"
  obtain evs1 g1 where 1:
    "GenerateGeoContextRec_loop x p (lookups g p ?r (map fst es1)) es1 L d g = Inr (evs1, g1)"
    using loopB_total' by blast
  obtain evs2 g2 where 2: "GenerateGeoContextRec x c v L (Suc d) g1 = Inr (evs2, g2)"
    using recB_total by blast
  obtain evs3 g3 where 3:
    "GenerateGeoContextRec_loop x p (lookups g p ?r (map fst es2)) es2 L d g2 = Inr (evs3, g3)"
    using loopB_total' by blast
  have "GenerateGeoContextRec x p (Group (es1 @ (name, v) # es2)) L d g
        = Inr (replicate (Suc (length es1 + length es2)) (GetChildren p ?r) @ evs1 @ evs2 @ evs3, g3)"
    unfolding recB_Group
    by (simp add: loopB_append assms 1 loopB_Some 2 3)
  then show ?thesis using 1 2 3 by blast
qed

lemma entryB_created:
  assumes "snd (getChild g p name (index (relations L) d)) = None"
  shows "\<exists>evs1 g1 evs2 g2 evs3 g3.
      GenerateGeoContextRec_loop x p (lookups g p (index (relations L) d) (map fst es1)) es1 L d g
        = Inr (evs1, g1)
    \<and> GenerateGeoContextRec x (length (graph_nodes g1)) v L (Suc d)
          (attachNew g1 x p name (index (types L) d) (index (relations L) d)) = Inr (evs2, g2)
    \<and> GenerateGeoContextRec_loop x p (lookups g p (index (relations L) d) (map fst es2)) es2 L d g2
        = Inr (evs3, g3)
    \<and> GenerateGeoContextRec x p (Group (es1 @ (name, v) # es2)) L d g
        = Inr (replicate (Suc (length es1 + length es2)) (GetChildren p (index (relations L) d)) @ evs1 @
               [CreateNode (length (graph_nodes g1)) name (index (types L) d),
                Yield (AddChildInContext p (length (graph_nodes g1)) x (index (relations L) d))] @
               evs2 @ evs3, g3)"
proof -
  let ?r = "index (relations L) d"
  obtain evs1 g1 where 1:
    "GenerateGeoContextRec_loop x p (lookups g p ?r (map fst es1)) es1 L d g = Inr (evs1, g1)"
    using loopB_total' by blast
  obtain evs2 g2 where 2: "GenerateGeoContextRec x (length (graph_nodes g1)) v L (Suc d)
          (attachNew g1 x p name (index (types L) d) ?r) = Inr (evs2, g2)"
    using recB_total by blast
  obtain evs3 g3 where 3:
    "GenerateGeoContextRec_loop x p (lookups g p ?r (map fst es2)) es2 L d g2 = Inr (evs3, g3)"
    using loopB_total' by blast
  have "GenerateGeoContextRec x p (Group (es1 @ (name, v) # es2)) L d g
        = Inr (replicate (Suc (length es1 + length es2)) (GetChildren p ?r) @ evs1 @
               [CreateNode (length (graph_nodes g1)) name (index (types L) d),
                Yield (AddChildInContext p (length (graph_nodes g1)) x ?r)] @
               evs2 @ evs3, g3)"
    unfolding recB_Group
    by (simp add: loopB_append assms 1 loopB_None 2 3)
  then show ?thesis using 1 2 3 by blast
qed


lemma getChild_None_iff:
  "(snd (getChild g p name r) = None) = (name \<notin> getName g ` set (getChildren g p r))"
  by (auto simp: getChild_def find_None_iff)

lemma getChild_Some:
  "snd (getChild g p name r) = Some c \<Longrightarrow> c \<in> set (getChildren g p r) \<and> getName g c = name"
  by (auto simp: getChild_def find_Some_iff)

lemma getChildrenByNames_getChild:
  "snd (getChildrenByNames g p names r) = map (\<lambda>name. snd (getChild g p name r)) names"
  by (simp add: getChildrenByNames_def getChild_def)

text \<open>
  C5. Both files match by name. What the batch lookup of the newer file gives for a
  name is what the one-name lookup of the older file gives, whatever the other names
  and wherever the name stands; a name is not found exactly when no current child of
  the parent under the relation has it, and a found child is a current child of that
  name; so the outcome does not change when the resolver lists the same children in
  another order. When the name of an entry is found, the run over the map is the
  resolver call(s), the run of the entries before, the run of the subtree under the
  found child, and the run of the entries after: nothing is created and no write is
  yielded for the name itself. When it is not found, the creation and its one write
  come in between.
\<close>

theorem C5_match_by_name:
  "snd (getChildrenByNames g parent names relationName) =
     map (\<lambda>name. snd (getChild g parent name relationName)) names
   \<and> (snd (getChild g parent name relationName) = None) =
       (name \<notin> getName g ` set (getChildren g parent relationName))
   \<and> (snd (getChild g parent name relationName) = Some c \<longrightarrow>
        c \<in> set (getChildren g parent relationName) \<and> getName g c = name)
   \<and> (set (getChildren g2 parent relationName) = set (getChildren g parent relationName)
        \<and> (\<forall>child \<in> set (getChildren g parent relationName). getName g2 child = getName g child)
        \<longrightarrow> (snd (getChild g2 parent name relationName) = None) =
            (snd (getChild g parent name relationName) = None))
   \<and> (snd (getChild g parent name (index (relations layout) depth)) = Some c \<longrightarrow>
        (\<exists>evs1 g1 evs2 g2 evs3 g3.
            generateGeoContextRec_loop ctx parent
              (lookups g parent (index (relations layout) depth) (map fst pre)) pre layout depth g
              = Inr (evs1, g1)
          \<and> generateGeoContextRec ctx c v layout (Suc depth) g1 = Inr (evs2, g2)
          \<and> generateGeoContextRec_loop ctx parent
              (lookups g parent (index (relations layout) depth) (map fst post)) post layout depth g2
              = Inr (evs3, g3)
          \<and> generateGeoContextRec ctx parent (Group (pre @ (name, v) # post)) layout depth g
              = Inr (GetChildren parent (index (relations layout) depth) #
                     evs1 @ evs2 @ evs3, g3))
        \<and> (\<exists>evs1 g1 evs2 g2 evs3 g3.
            GenerateGeoContextRec_loop ctx parent
              (lookups g parent (index (relations layout) depth) (map fst pre)) pre layout depth g
              = Inr (evs1, g1)
          \<and> GenerateGeoContextRec ctx c v layout (Suc depth) g1 = Inr (evs2, g2)
          \<and> GenerateGeoContextRec_loop ctx parent
              (lookups g parent (index (relations layout) depth) (map fst post)) post layout depth g2
              = Inr (evs3, g3)
          \<and> GenerateGeoContextRec ctx parent (Group (pre @ (name, v) # post)) layout depth g
              = Inr (replicate (Suc (length pre + length post))
                       (GetChildren parent (index (relations layout) depth)) @
                     evs1 @ evs2 @ evs3, g3)))
   \<and> (snd (getChild g parent name (index (relations layout) depth)) = None \<longrightarrow>
        (\<exists>evs1 g1 evs2 g2 evs3 g3.
            generateGeoContextRec_loop ctx parent
              (lookups g parent (index (relations layout) depth) (map fst pre)) pre layout depth g
              = Inr (evs1, g1)
          \<and> generateGeoContextRec ctx (length (graph_nodes g1)) v layout (Suc depth)
              (attachNew g1 ctx parent name (index (types layout) depth)
                 (index (relations layout) depth)) = Inr (evs2, g2)
          \<and> generateGeoContextRec_loop ctx parent
              (lookups g parent (index (relations layout) depth) (map fst post)) post layout depth g2
              = Inr (evs3, g3)
          \<and> generateGeoContextRec ctx parent (Group (pre @ (name, v) # post)) layout depth g
              = Inr (GetChildren parent (index (relations layout) depth) # evs1 @
                     [CreateNode (length (graph_nodes g1)) name (index (types layout) depth),
                      Yield (AddChildInContext parent (length (graph_nodes g1)) ctx
                               (index (relations layout) depth))] @
                     evs2 @ evs3, g3))
        \<and> (\<exists>evs1 g1 evs2 g2 evs3 g3.
            GenerateGeoContextRec_loop ctx parent
              (lookups g parent (index (relations layout) depth) (map fst pre)) pre layout depth g
              = Inr (evs1, g1)
          \<and> GenerateGeoContextRec ctx (length (graph_nodes g1)) v layout (Suc depth)
              (attachNew g1 ctx parent name (index (types layout) depth)
                 (index (relations layout) depth)) = Inr (evs2, g2)
          \<and> GenerateGeoContextRec_loop ctx parent
              (lookups g parent (index (relations layout) depth) (map fst post)) post layout depth g2
              = Inr (evs3, g3)
          \<and> GenerateGeoContextRec ctx parent (Group (pre @ (name, v) # post)) layout depth g
              = Inr (replicate (Suc (length pre + length post))
                       (GetChildren parent (index (relations layout) depth)) @ evs1 @
                     [CreateNode (length (graph_nodes g1)) name (index (types layout) depth),
                      Yield (AddChildInContext parent (length (graph_nodes g1)) ctx
                               (index (relations layout) depth))] @
                     evs2 @ evs3, g3)))"
proof (intro conjI impI)
  show "snd (getChildrenByNames g parent names relationName) =
     map (\<lambda>name. snd (getChild g parent name relationName)) names"
    by (rule getChildrenByNames_getChild)
  show "(snd (getChild g parent name relationName) = None) =
       (name \<notin> getName g ` set (getChildren g parent relationName))"
    by (rule getChild_None_iff)
next
  assume "snd (getChild g parent name relationName) = Some c"
  then show "c \<in> set (getChildren g parent relationName)" "getName g c = name"
    using getChild_Some by blast+
next
  assume "set (getChildren g2 parent relationName) = set (getChildren g parent relationName)
        \<and> (\<forall>child \<in> set (getChildren g parent relationName). getName g2 child = getName g child)"
  then have "getName g2 ` set (getChildren g2 parent relationName) =
      getName g ` set (getChildren g parent relationName)"
    by auto
  then show "(snd (getChild g2 parent name relationName) = None) =
            (snd (getChild g parent name relationName) = None)"
    by (simp add: getChild_None_iff)
next
  assume a: "snd (getChild g parent name (index (relations layout) depth)) = Some c"
  show "\<exists>evs1 g1 evs2 g2 evs3 g3.
            generateGeoContextRec_loop ctx parent
              (lookups g parent (index (relations layout) depth) (map fst pre)) pre layout depth g
              = Inr (evs1, g1)
          \<and> generateGeoContextRec ctx c v layout (Suc depth) g1 = Inr (evs2, g2)
          \<and> generateGeoContextRec_loop ctx parent
              (lookups g parent (index (relations layout) depth) (map fst post)) post layout depth g2
              = Inr (evs3, g3)
          \<and> generateGeoContextRec ctx parent (Group (pre @ (name, v) # post)) layout depth g
              = Inr (GetChildren parent (index (relations layout) depth) #
                     evs1 @ evs2 @ evs3, g3)"
    by (rule entry_found[OF a])
  show "\<exists>evs1 g1 evs2 g2 evs3 g3.
            GenerateGeoContextRec_loop ctx parent
              (lookups g parent (index (relations layout) depth) (map fst pre)) pre layout depth g
              = Inr (evs1, g1)
          \<and> GenerateGeoContextRec ctx c v layout (Suc depth) g1 = Inr (evs2, g2)
          \<and> GenerateGeoContextRec_loop ctx parent
              (lookups g parent (index (relations layout) depth) (map fst post)) post layout depth g2
              = Inr (evs3, g3)
          \<and> GenerateGeoContextRec ctx parent (Group (pre @ (name, v) # post)) layout depth g
              = Inr (replicate (Suc (length pre + length post))
                       (GetChildren parent (index (relations layout) depth)) @
                     evs1 @ evs2 @ evs3, g3)"
    by (rule entryB_found[OF a])
next
  assume a: "snd (getChild g parent name (index (relations layout) depth)) = None"
  show "\<exists>evs1 g1 evs2 g2 evs3 g3.
            generateGeoContextRec_loop ctx parent
              (lookups g parent (index (relations layout) depth) (map fst pre)) pre layout depth g
              = Inr (evs1, g1)
          \<and> generateGeoContextRec ctx (length (graph_nodes g1)) v layout (Suc depth)
              (attachNew g1 ctx parent name (index (types layout) depth)
                 (index (relations layout) depth)) = Inr (evs2, g2)
          \<and> generateGeoContextRec_loop ctx parent
              (lookups g parent (index (relations layout) depth) (map fst post)) post layout depth g2
              = Inr (evs3, g3)
          \<and> generateGeoContextRec ctx parent (Group (pre @ (name, v) # post)) layout depth g
              = Inr (GetChildren parent (index (relations layout) depth) # evs1 @
                     [CreateNode (length (graph_nodes g1)) name (index (types layout) depth),
                      Yield (AddChildInContext parent (length (graph_nodes g1)) ctx
                               (index (relations layout) depth))] @
                     evs2 @ evs3, g3)"
    by (rule entry_created[OF a])
  show "\<exists>evs1 g1 evs2 g2 evs3 g3.
            GenerateGeoContextRec_loop ctx parent
              (lookups g parent (index (relations layout) depth) (map fst pre)) pre layout depth g
              = Inr (evs1, g1)
          \<and> GenerateGeoContextRec ctx (length (graph_nodes g1)) v layout (Suc depth)
              (attachNew g1 ctx parent name (index (types layout) depth)
                 (index (relations layout) depth)) = Inr (evs2, g2)
          \<and> GenerateGeoContextRec_loop ctx parent
              (lookups g parent (index (relations layout) depth) (map fst post)) post layout depth g2
              = Inr (evs3, g3)
          \<and> GenerateGeoContextRec ctx parent (Group (pre @ (name, v) # post)) layout depth g
              = Inr (replicate (Suc (length pre + length post))
                       (GetChildren parent (index (relations layout) depth)) @ evs1 @
                     [CreateNode (length (graph_nodes g1)) name (index (types layout) depth),
                      Yield (AddChildInContext parent (length (graph_nodes g1)) ctx
                               (index (relations layout) depth))] @
                     evs2 @ evs3, g3)"
    by (rule entryB_created[OF a])
qed

theorem C5_match_by_name_witness:
  "snd (getChild reuse_graph 0 ''B1'' (index (relations scenario_layout) 0)) = Some 1
   \<and> generateGeoContextRec 0 0 scenario_tree scenario_layout 0 reuse_graph =
       Inr ([GetChildren 0 (Some ''hasFloor''),
             GetChildren 1 (Some ''hasRoom''),
             CreateNode 2 ''F1'' (Some ''Floor''),
             Yield (AddChildInContext 1 2 0 (Some ''hasRoom'')),
             Yield (AddBIMObject 0 2 1 ''Chair'')],
            \<lparr>graph_nodes =
               [\<lparr>node_name = ''context'', node_type = Some ''context''\<rparr>,
                \<lparr>node_name = ''B1'', node_type = Some ''Building''\<rparr>,
                \<lparr>node_name = ''F1'', node_type = Some ''Floor''\<rparr>],
             graph_edges =
               [\<lparr>edge_parent = 0, edge_relation = Some ''hasFloor'', edge_child = 1,
                  edge_context = 0\<rparr>,
                \<lparr>edge_parent = 1, edge_relation = Some ''hasRoom'', edge_child = 2,
                  edge_context = 0\<rparr>]\<rparr>)
   \<and> (\<exists>evs2 g2.
         generateGeoContextRec 0 1
           (Group [(''F1'', Leaf [\<lparr>item_dbId = 1, item_name = ''Chair''\<rparr>])])
           scenario_layout (Suc 0) reuse_graph = Inr (evs2, g2)
       \<and> generateGeoContextRec 0 0 scenario_tree scenario_layout 0 reuse_graph =
           Inr (GetChildren 0 (index (relations scenario_layout) 0) # evs2, g2))"
proof -
  have h: "snd (getChild reuse_graph 0 ''B1'' (index (relations scenario_layout) 0)) = Some 1"
    by (simp add: reuse_graph_def scenario_layout_def store_defs)
  have e: "generateGeoContextRec 0 0 scenario_tree scenario_layout 0 reuse_graph =
       Inr ([GetChildren 0 (Some ''hasFloor''),
             GetChildren 1 (Some ''hasRoom''),
             CreateNode 2 ''F1'' (Some ''Floor''),
             Yield (AddChildInContext 1 2 0 (Some ''hasRoom'')),
             Yield (AddBIMObject 0 2 1 ''Chair'')],
            \<lparr>graph_nodes =
               [\<lparr>node_name = ''context'', node_type = Some ''context''\<rparr>,
                \<lparr>node_name = ''B1'', node_type = Some ''Building''\<rparr>,
                \<lparr>node_name = ''F1'', node_type = Some ''Floor''\<rparr>],
             graph_edges =
               [\<lparr>edge_parent = 0, edge_relation = Some ''hasFloor'', edge_child = 1,
                  edge_context = 0\<rparr>,
                \<lparr>edge_parent = 1, edge_relation = Some ''hasRoom'', edge_child = 2,
                  edge_context = 0\<rparr>]\<rparr>)"
    by (simp add: reuse_graph_def scenario_layout_def scenario_tree_def store_defs run_simps)
  have "\<exists>evs2 g2.
         generateGeoContextRec 0 1
           (Group [(''F1'', Leaf [\<lparr>item_dbId = 1, item_name = ''Chair''\<rparr>])])
           scenario_layout (Suc 0) reuse_graph = Inr (evs2, g2)
       \<and> generateGeoContextRec 0 0 scenario_tree scenario_layout 0 reuse_graph =
           Inr (GetChildren 0 (index (relations scenario_layout) 0) # evs2, g2)"
    using C5_match_by_name[where g = reuse_graph and parent = 0 and name = "''B1''"
        and c = 1 and layout = scenario_layout and depth = 0 and ctx = 0 and names = "[]"
        and relationName = None and ?g2.0 = reuse_graph and pre = "[]" and post = "[]"
        and v = "Group [(''F1'', Leaf [\<lparr>item_dbId = 1, item_name = ''Chair''\<rparr>])]",
        THEN conjunct2, THEN conjunct2, THEN conjunct2, THEN conjunct2, THEN conjunct1,
        THEN mp, OF h, THEN conjunct1]
    by (auto simp: scenario_tree_def)
  then show ?thesis using h e by blast
qed

section \<open>The batching loops\<close>

lemma wait_registered:
  "(\<And>w. FS t w) \<Longrightarrow> waitForFileSystem FS t nodes = Some (Suc t)"
  by (subst waitForFileSystem.simps) simp

lemma loopA_flush:
  "Suc (length (promises s)) = MAX_NON_SYNCHRONIZED_NODES \<Longrightarrow>
   generateGeoContext_loop FS incrProg (Yield w # evs) s =
     (case waitForFileSystem FS (clock s) (promises s @ [w]) of
        None \<Rightarrow>
          ([Gen (Yield w), Push w, Progression (js_add (progression s) incrProg),
            WaitForFileSystem (promises s @ [w])], None)
      | Some t \<Rightarrow>
          (case generateGeoContext_loop FS incrProg evs
                  (s\<lparr>progression := js_add (progression s) incrProg, clock := t,
                     promises := []\<rparr>) of
             (tr', r) \<Rightarrow>
               (Gen (Yield w) # Push w # Progression (js_add (progression s) incrProg) #
                WaitForFileSystem (promises s @ [w]) # tr', r)))"
  by (simp add: Let_def split: option.splits prod.splits)

lemma loopA_keep:
  "Suc (length (promises s)) \<noteq> MAX_NON_SYNCHRONIZED_NODES \<Longrightarrow>
   generateGeoContext_loop FS incrProg (Yield w # evs) s =
     (case generateGeoContext_loop FS incrProg evs (s\<lparr>promises := promises s @ [w]\<rparr>) of
        (tr', r) \<Rightarrow> (Gen (Yield w) # Push w # tr', r))"
  by (simp add: Let_def split: option.splits prod.splits)

lemma loopA_other:
  "writes [e] = [] \<Longrightarrow>
   generateGeoContext_loop FS incrProg (e # evs) s =
     (case generateGeoContext_loop FS incrProg evs s of (tr', r) \<Rightarrow> (Gen e # tr', r))"
  by (cases e) (simp_all split: prod.splits)

lemma loopB_flush:
  "Suc (length (promises s)) = MAX_NON_SYNCHRONIZED_NODES \<Longrightarrow>
   GenerateGeoContext_loop FS (Yield w # evs) s =
     (case waitForFileSystem FS (clock s) (promises s @ [w]) of
        None \<Rightarrow> ([Gen (Yield w), Push w, WaitForFileSystem (promises s @ [w])], None)
      | Some t \<Rightarrow>
          (case GenerateGeoContext_loop FS evs (s\<lparr>promises := promises s @ [w], clock := t\<rparr>) of
             (tr', r) \<Rightarrow>
               (Gen (Yield w) # Push w # WaitForFileSystem (promises s @ [w]) # tr', r)))"
  by (simp add: Let_def split: option.splits prod.splits)

lemma loopB_keep:
  "Suc (length (promises s)) \<noteq> MAX_NON_SYNCHRONIZED_NODES \<Longrightarrow>
   GenerateGeoContext_loop FS (Yield w # evs) s =
     (case GenerateGeoContext_loop FS evs (s\<lparr>promises := promises s @ [w]\<rparr>) of
        (tr', r) \<Rightarrow> (Gen (Yield w) # Push w # tr', r))"
  by (simp add: Let_def split: option.splits prod.splits)

lemma loopB_other:
  "writes [e] = [] \<Longrightarrow>
   GenerateGeoContext_loop FS (e # evs) s =
     (case GenerateGeoContext_loop FS evs s of (tr', r) \<Rightarrow> (Gen e # tr', r))"
  by (cases e) (simp_all split: prod.splits)

lemma event_cases:
  obtains (Yield) w where "e = Yield w" | (Other) "writes [e] = []"
  by (cases e) auto

text \<open>The newer loop never holds more unconfirmed writes than the threshold.\<close>

lemma loopA_bound:
  "length (promises s) < MAX_NON_SYNCHRONIZED_NODES \<Longrightarrow>
   generateGeoContext_loop FS incrProg evs s = (tr, r) \<Longrightarrow>
   list_all (\<lambda>k. k \<le> MAX_NON_SYNCHRONIZED_NODES) (unconfirmed (length (promises s)) tr)"
proof (induction evs arbitrary: s tr r)
  case Nil
  then show ?case by auto
next
  case (Cons e evs)
  show ?case
  proof (cases e rule: event_cases)
    case (Yield w)
    show ?thesis
    proof (cases "Suc (length (promises s)) = MAX_NON_SYNCHRONIZED_NODES")
      case True
      show ?thesis
      proof (cases "waitForFileSystem FS (clock s) (promises s @ [w])")
        case None
        then show ?thesis using Cons.prems(2) True unfolding Yield loopA_flush[OF True] by auto
      next
        case (Some t)
        obtain tr' r' where l: "generateGeoContext_loop FS incrProg evs
            (s\<lparr>progression := js_add (progression s) incrProg, clock := t,
               promises := []\<rparr>) = (tr', r')"
          by force
        have "list_all (\<lambda>k. k \<le> MAX_NON_SYNCHRONIZED_NODES) (unconfirmed 0 tr')"
          using Cons.IH[OF _ l] True by simp
        then show ?thesis using Cons.prems(2) True Some l unfolding Yield loopA_flush[OF True]
          by auto
      qed
    next
      case False
      obtain tr' r' where l: "generateGeoContext_loop FS incrProg evs
            (s\<lparr>promises := promises s @ [w]\<rparr>) = (tr', r')"
        by force
      have "list_all (\<lambda>k. k \<le> MAX_NON_SYNCHRONIZED_NODES)
          (unconfirmed (Suc (length (promises s))) tr')"
        using Cons.IH[OF _ l] False Cons.prems(1) by simp
      then show ?thesis using Cons.prems False l unfolding Yield loopA_keep[OF False]
        by auto
    qed
  next
    case Other
    obtain tr' r' where l: "generateGeoContext_loop FS incrProg evs s = (tr', r')"
      by force
    have "list_all (\<lambda>k. k \<le> MAX_NON_SYNCHRONIZED_NODES) (unconfirmed (length (promises s)) tr')"
      using Cons.IH[OF Cons.prems(1) l] .
    then show ?thesis using Cons.prems(2) l unfolding loopA_other[OF Other] by auto
  qed
qed

lemma unconfirmed_snoc:
  "unconfirmed k (tr @ [a]) = unconfirmed k tr" if "\<And>w. a \<noteq> Push w"
  using that
  by (induction k tr rule: unconfirmed.induct) (cases a; auto)+

lemma unconfirmed_snoc2:
  "unconfirmed k (tr @ [a, b]) = unconfirmed k tr" if "\<And>w. a \<noteq> Push w" "\<And>w. b \<noteq> Push w"
  using that
  by (induction k tr rule: unconfirmed.induct) (cases a; cases b; auto)+

lemma generateGeoContext_bound:
  "list_all (\<lambda>k. k \<le> MAX_NON_SYNCHRONIZED_NODES)
     (unconfirmed 0 (fst (generateGeoContext createTmpTree FS context layout props g)))"
proof -
  have b: "list_all (\<lambda>k. k \<le> MAX_NON_SYNCHRONIZED_NODES) (unconfirmed 0 tr)"
    if "generateGeoContext_loop FS incrProg evs
        \<lparr>clock = 0, promises = [], progression = p\<rparr> = (tr, r)" for incrProg evs p tr r
    using loopA_bound[OF _ that] by (simp add: MAX_NON_SYNCHRONIZED_NODES_def)
  show ?thesis
    unfolding generateGeoContext_def Let_def
    by (auto split: sum.splits prod.splits option.splits
        simp: unconfirmed_snoc unconfirmed_snoc2 dest: b)
qed

text \<open>
  The older loop when every write is registered at once: it waits once, when the array
  reaches the threshold, and keeps every write in the array.
\<close>

lemma map_upt_Cons: "0 < m \<Longrightarrow> map f [0..<m] = f 0 # map (\<lambda>i. f (Suc i)) [0..<m - 1]"
  by (cases m) (simp_all add: map_upt_Suc del: upt_Suc)

lemma loopB_registered:
  assumes "\<And>t w. FS t w"
  shows "GenerateGeoContext_loop FS evs s = (tr, r) \<Longrightarrow>
     (\<exists>s'. r = Some s' \<and> promises s' = promises s @ writes evs)
     \<and> unconfirmed k tr =
         (if length (promises s) < MAX_NON_SYNCHRONIZED_NODES
             \<and> MAX_NON_SYNCHRONIZED_NODES \<le> length (promises s) + length (writes evs)
          then map (\<lambda>i. k + Suc i) [0..<MAX_NON_SYNCHRONIZED_NODES - length (promises s)] @
               map Suc [0..<length (writes evs)
                           - (MAX_NON_SYNCHRONIZED_NODES - length (promises s))]
          else map (\<lambda>i. k + Suc i) [0..<length (writes evs)])"
proof (induction evs arbitrary: s k tr r)
  case Nil
  then show ?case by auto
next
  case (Cons e evs)
  show ?case
  proof (cases e rule: event_cases)
    case (Yield w)
    show ?thesis
    proof (cases "Suc (length (promises s)) = MAX_NON_SYNCHRONIZED_NODES")
      case True
      have wt: "waitForFileSystem FS (clock s) (promises s @ [w]) = Some (Suc (clock s))"
        using assms by (simp add: wait_registered)
      obtain tr' r' where l: "GenerateGeoContext_loop FS evs
            (s\<lparr>promises := promises s @ [w], clock := Suc (clock s)\<rparr>) = (tr', r')"
        by force
      from Cons.IH[OF l, of 0] True
      have ih: "\<exists>s'. r' = Some s' \<and> promises s' = (promises s @ [w]) @ writes evs"
        "unconfirmed 0 tr' = map Suc [0..<length (writes evs)]"
        by auto
      have tr: "tr = Gen (Yield w) # Push w # WaitForFileSystem (promises s @ [w]) # tr'"
        and r: "r = r'"
        using Cons.prems l wt unfolding Yield loopB_flush[OF True] by auto
      have m: "MAX_NON_SYNCHRONIZED_NODES - length (promises s) = 1"
        using True by simp
      show ?thesis unfolding tr r Yield using ih True by (simp add: m)
    next
      case False
      obtain tr' r' where l: "GenerateGeoContext_loop FS evs
            (s\<lparr>promises := promises s @ [w]\<rparr>) = (tr', r')"
        by force
      note ih = Cons.IH[OF l, of "Suc k"]
      have tr: "tr = Gen (Yield w) # Push w # tr'" and r: "r = r'"
        using Cons.prems l unfolding Yield loopB_keep[OF False] by auto
      show ?thesis
      proof (cases "length (promises s) < MAX_NON_SYNCHRONIZED_NODES
             \<and> MAX_NON_SYNCHRONIZED_NODES \<le> length (promises s) + length (writes (e # evs))")
        case True
        then have c: "Suc (length (promises s)) < MAX_NON_SYNCHRONIZED_NODES"
          "MAX_NON_SYNCHRONIZED_NODES \<le> Suc (length (promises s)) + length (writes evs)"
          using False Yield by auto
        have d: "0 < MAX_NON_SYNCHRONIZED_NODES - length (promises s)" using c by simp
        show ?thesis unfolding tr r Yield using ih c True
          by (simp add: map_upt_Cons[OF d] Suc_diff_Suc)
      next
        case nf: False
        then have c: "\<not> (Suc (length (promises s)) < MAX_NON_SYNCHRONIZED_NODES
           \<and> MAX_NON_SYNCHRONIZED_NODES \<le> Suc (length (promises s)) + length (writes evs))"
          using False Yield by auto
        have n: "\<not> (length (promises s) < MAX_NON_SYNCHRONIZED_NODES
             \<and> MAX_NON_SYNCHRONIZED_NODES \<le> Suc (length (promises s) + length (writes evs)))"
          using nf Yield by simp
        have u: "unconfirmed (Suc k) tr' = map (\<lambda>i. Suc k + Suc i) [0..<length (writes evs)]"
          using ih c by (auto simp del: upt_Suc)
        have "unconfirmed k (Gen (Yield w) # Push w # tr') =
            map (\<lambda>i. k + Suc i) [0..<Suc (length (writes evs))]"
          using u by (simp add: map_upt_Cons[of "Suc (length (writes evs))"] del: upt_Suc)
        then show ?thesis unfolding tr r Yield using ih n by (auto simp del: upt_Suc)
      qed
    qed
  next
    case Other
    obtain tr' r' where l: "GenerateGeoContext_loop FS evs s = (tr', r')"
      by force
    have tr: "tr = Gen e # tr'" and r: "r = r'"
      using Cons.prems l unfolding loopB_other[OF Other] by auto
    have w: "writes (e # evs) = writes evs"
      using Other by (cases e) auto
    show ?thesis unfolding tr r w using Cons.IH[OF l, of k] by simp
  qed
qed

text \<open>
  The newer loop when every write is registered at once: it flushes once per full
  batch, and the progression grows by the increment at every flush.
\<close>

lemma loopA_registered:
  assumes "\<And>t w. FS t w"
  shows "generateGeoContext_loop FS incrProg evs s = (tr, r) \<Longrightarrow>
     length (promises s) < MAX_NON_SYNCHRONIZED_NODES \<Longrightarrow>
     (\<exists>s'. r = Some s'
        \<and> length (promises s') =
            (length (promises s) + length (writes evs)) mod MAX_NON_SYNCHRONIZED_NODES)
     \<and> progress_history tr =
         flush_values ((length (promises s) + length (writes evs)) div MAX_NON_SYNCHRONIZED_NODES)
           (progression s) incrProg"
proof (induction evs arbitrary: s tr r)
  case Nil
  then show ?case by auto
next
  case (Cons e evs)
  show ?case
  proof (cases e rule: event_cases)
    case (Yield w)
    show ?thesis
    proof (cases "Suc (length (promises s)) = MAX_NON_SYNCHRONIZED_NODES")
      case True
      have wt: "waitForFileSystem FS (clock s) (promises s @ [w]) = Some (Suc (clock s))"
        using assms by (simp add: wait_registered)
      obtain tr' r' where l: "generateGeoContext_loop FS incrProg evs
            (s\<lparr>progression := js_add (progression s) incrProg, clock := Suc (clock s),
               promises := []\<rparr>) = (tr', r')"
        by force
      from Cons.IH[OF l] True
      have ih: "\<exists>s'. r' = Some s' \<and> length (promises s') =
            length (writes evs) mod MAX_NON_SYNCHRONIZED_NODES"
        "progress_history tr' =
           flush_values (length (writes evs) div MAX_NON_SYNCHRONIZED_NODES)
             (js_add (progression s) incrProg) incrProg"
        by auto
      have tr: "tr = Gen (Yield w) # Push w # Progression (js_add (progression s) incrProg) #
                WaitForFileSystem (promises s @ [w]) # tr'"
        and r: "r = r'"
        using Cons.prems(1) l wt unfolding Yield loopA_flush[OF True] by auto
      have a: "length (promises s) + length (writes (Yield w # evs)) =
          MAX_NON_SYNCHRONIZED_NODES + length (writes evs)"
        using True by simp
      have p: "0 < MAX_NON_SYNCHRONIZED_NODES" using True by simp
      show ?thesis unfolding tr r Yield a using ih p by simp
    next
      case False
      obtain tr' r' where l: "generateGeoContext_loop FS incrProg evs
            (s\<lparr>promises := promises s @ [w]\<rparr>) = (tr', r')"
        by force
      have lt: "length (promises (s\<lparr>promises := promises s @ [w]\<rparr>)) < MAX_NON_SYNCHRONIZED_NODES"
        using False Cons.prems(2) by simp
      note ih = Cons.IH[OF l lt]
      have tr: "tr = Gen (Yield w) # Push w # tr'" and r: "r = r'"
        using Cons.prems(1) l unfolding Yield loopA_keep[OF False] by auto
      show ?thesis unfolding tr r Yield using ih by simp
    qed
  next
    case Other
    obtain tr' r' where l: "generateGeoContext_loop FS incrProg evs s = (tr', r')"
      by force
    have tr: "tr = Gen e # tr'" and r: "r = r'"
      using Cons.prems(1) l unfolding loopA_other[OF Other] by auto
    have w: "writes (e # evs) = writes evs"
      using Other by (cases e) auto
    show ?thesis unfolding tr r w using Cons.IH[OF l Cons.prems(2)] by simp
  qed
qed

section \<open>The orchestrators\<close>

lemma unconfirmed_no_push:
  "unconfirmed k (HasProperties a b # GetContext # CreateTmpTree c # tr) = unconfirmed k tr"
  "unconfirmed k (Progression p # CreateTmpTree c # Progression q # tr) = unconfirmed k tr"
  by simp_all

lemma progress_history_append [simp]:
  "progress_history (tr @ tr') = progress_history tr @ progress_history tr'"
  by (induction tr rule: progress_history.induct) auto

lemma GenerateGeoContext_registered:
  assumes fs: "\<And>t w. FS t w"
    and props: "hasProperties referencial (keys layout) = Inr props" "props \<noteq> []"
    and run: "GenerateGeoContextRec context context (createTmpTree props) layout 0 g = Inr (evs, g')"
  shows "snd (GenerateGeoContext hasProperties createTmpTree FS context layout referencial g) =
           Resolved Undefined g'"
    and "unconfirmed 0
           (fst (GenerateGeoContext hasProperties createTmpTree FS context layout referencial g)) =
         (if MAX_NON_SYNCHRONIZED_NODES \<le> length (writes evs)
          then map Suc [0..<MAX_NON_SYNCHRONIZED_NODES] @
               map Suc [0..<length (writes evs) - MAX_NON_SYNCHRONIZED_NODES]
          else map Suc [0..<length (writes evs)])"
proof -
  obtain tr r where l: "GenerateGeoContext_loop FS evs \<lparr>clock = 0, promises = []\<rparr> = (tr, r)"
    by force
  from loopB_registered[OF fs l, of 0]
  obtain s where s: "r = Some s" "promises s = writes evs"
    and u: "unconfirmed 0 tr =
         (if MAX_NON_SYNCHRONIZED_NODES \<le> length (writes evs)
          then map Suc [0..<MAX_NON_SYNCHRONIZED_NODES] @
               map Suc [0..<length (writes evs) - MAX_NON_SYNCHRONIZED_NODES]
          else map Suc [0..<length (writes evs)])"
    by (auto simp: MAX_NON_SYNCHRONIZED_NODES_def)
  have w: "waitForFileSystem FS (clock s) (promises s) = Some (Suc (clock s))"
    using fs by (simp add: wait_registered)
  show "snd (GenerateGeoContext hasProperties createTmpTree FS context layout referencial g) =
           Resolved Undefined g'"
    using props run l s w by (simp add: GenerateGeoContext_def Let_def)
  show "unconfirmed 0
           (fst (GenerateGeoContext hasProperties createTmpTree FS context layout referencial g)) =
         (if MAX_NON_SYNCHRONIZED_NODES \<le> length (writes evs)
          then map Suc [0..<MAX_NON_SYNCHRONIZED_NODES] @
               map Suc [0..<length (writes evs) - MAX_NON_SYNCHRONIZED_NODES]
          else map Suc [0..<length (writes evs)])"
    using props run l s w u by (simp add: GenerateGeoContext_def Let_def unconfirmed_snoc)
qed

lemma generateGeoContext_registered:
  assumes fs: "\<And>t w. FS t w"
    and run: "generateGeoContextRec context context (createTmpTree props) layout 0 g = Inr (evs, g')"
  shows "snd (generateGeoContext createTmpTree FS context layout props g) = Resolved Undefined g'"
    and "progress_history (fst (generateGeoContext createTmpTree FS context layout props g)) =
         [Num 10, Num 20] @
         flush_values (length (writes evs) div MAX_NON_SYNCHRONIZED_NODES) (Num 20)
           (js_div (80 * real MAX_NON_SYNCHRONIZED_NODES) (length props)) @
         [Num 100]"
proof -
  let ?incr = "js_div (80 * real MAX_NON_SYNCHRONIZED_NODES) (length props)"
  obtain tr r where l: "generateGeoContext_loop FS ?incr evs
      \<lparr>clock = 0, promises = [], progression = Num 20\<rparr> = (tr, r)"
    by force
  from loopA_registered[OF fs l]
  obtain s where s: "r = Some s"
    and u: "progress_history tr =
      flush_values (length (writes evs) div MAX_NON_SYNCHRONIZED_NODES) (Num 20) ?incr"
    by (auto simp: MAX_NON_SYNCHRONIZED_NODES_def)
  have w: "waitForFileSystem FS (clock s) (promises s) = Some (Suc (clock s))"
    using fs by (simp add: wait_registered)
  show "snd (generateGeoContext createTmpTree FS context layout props g) = Resolved Undefined g'"
    using run l s w
    by (simp add: generateGeoContext_def Let_def PROGRESS_BAR_SIZE_GET_PROPS_def
        PROGRESS_BAR_SIZE_CREATE_TREE_def PROGRESS_BAR_SIZE_CREATE_GRAPH_def)
  show "progress_history (fst (generateGeoContext createTmpTree FS context layout props g)) =
         [Num 10, Num 20] @
         flush_values (length (writes evs) div MAX_NON_SYNCHRONIZED_NODES) (Num 20) ?incr @
         [Num 100]"
    using run l s w u
    by (simp add: generateGeoContext_def Let_def PROGRESS_BAR_SIZE_GET_PROPS_def
        PROGRESS_BAR_SIZE_CREATE_TREE_def PROGRESS_BAR_SIZE_CREATE_GRAPH_def)
qed

section \<open>Runs of the orchestrators\<close>

lemma scenario_no_children: "getChildren scenario_graph p r = []"
  by (simp add: getChildren_def scenario_graph_def)

lemma lookups_no_children:
  "getChildren g p r = [] \<Longrightarrow> lookups g p r names = replicate (length names) None"
  by (simp add: lookups_def map_replicate_const)

lemma loop_all_new:
  "generateGeoContextRec_loop x p (replicate (length props) None)
     (map (\<lambda>child. (item_name child, Leaf [child])) props) L d g = Inr (evs, g') \<Longrightarrow>
   length (writes evs) = 2 * length props"
proof (induction props arbitrary: g evs)
  case Nil
  then show ?case by simp
next
  case (Cons child props)
  from Cons.prems obtain evs3 where
    l: "generateGeoContextRec_loop x p (replicate (length props) None)
          (map (\<lambda>child. (item_name child, Leaf [child])) props) L d
          (attachNew g x p (item_name child) (index (types L) d) (index (relations L) d))
        = Inr (evs3, g')"
    and e: "evs = CreateNode (length (graph_nodes g)) (item_name child) (index (types L) d) #
        Yield (AddChildInContext p (length (graph_nodes g)) x (index (relations L) d)) #
        [Yield (AddBIMObject x (length (graph_nodes g)) (item_dbId child) (item_name child))] @ evs3"
    by (auto simp: loop_None split: sum.splits)
  show ?case unfolding e using Cons.IH[OF l] by simp
qed

lemma one_group_per_item_writes:
  assumes "generateGeoContextRec 0 0 (one_group_per_item props) L 0 scenario_graph = Inr (evs, g')"
  shows "length (writes evs) = 2 * length props"
proof -
  from assms obtain evs1 where
    l: "generateGeoContextRec_loop 0 0 (replicate (length props) None)
          (map (\<lambda>child. (item_name child, Leaf [child])) props) L 0 scenario_graph = Inr (evs1, g')"
    and e: "evs = GetChildren 0 (index (relations L) 0) # evs1"
    unfolding one_group_per_item_def rec_Group
    by (auto simp: lookups_no_children scenario_no_children comp_def split: sum.splits)
  show ?thesis unfolding e using loop_all_new[OF l] by simp
qed

lemma one_group_tree_run:
  "GenerateGeoContextRec 0 0 (one_group_tree props) one_level_layout 0 scenario_graph =
     Inr ([GetChildren 0 (Some ''hasRoom''),
           CreateNode 1 ''R1'' (Some ''Room''),
           Yield (AddChildInContext 0 1 0 (Some ''hasRoom''))] @
          map (\<lambda>child. Yield (AddBIMObject 0 1 (item_dbId child) (item_name child))) props,
          \<lparr>graph_nodes =
             [\<lparr>node_name = ''context'', node_type = Some ''context''\<rparr>,
              \<lparr>node_name = ''R1'', node_type = Some ''Room''\<rparr>],
           graph_edges =
             [\<lparr>edge_parent = 0, edge_relation = Some ''hasRoom'', edge_child = 1,
                edge_context = 0\<rparr>]\<rparr>)"
  by (simp add: one_group_tree_def one_level_layout_def scenario_graph_def store_defs run_simps)

text \<open>
  C2 fails on the older file. Six hundred items under one key, on a context without
  children: 601 writes. The batcher waits once, at the 300th write, never empties its
  array, and holds 301 unconfirmed writes when the sequence ends. (The newer file
  empties the array after every wait and stays within the threshold:
  \<open>generateGeoContext_bound\<close>.)
\<close>

theorem C2_older_batcher_exceeds_threshold:
  "unconfirmed 0
     (fst (GenerateGeoContext all_valid one_group_tree (\<lambda>t w. True) 0 one_level_layout
             [0..<600] scenario_graph)) =
   map Suc [0..<300] @ map Suc [0..<301]"
proof -
  have p: "all_valid [0..<600] (keys one_level_layout) = Inr (map item_of [0..<600])"
    by (simp add: all_valid_def)
  have ne: "map item_of [0..<600] \<noteq> []"
    by (simp del: upt_rec_numeral add: upt_rec[of 0 600])
  have "length (writes ([GetChildren 0 (Some ''hasRoom''),
           CreateNode 1 ''R1'' (Some ''Room''),
           Yield (AddChildInContext 0 1 0 (Some ''hasRoom''))] @
          map (\<lambda>child. Yield (AddBIMObject 0 1 (item_dbId child) (item_name child)))
            props)) = Suc (length props)" for props
    by simp
  from this[of "map item_of [0..<600]"]
  have w: "length (writes ([GetChildren 0 (Some ''hasRoom''),
           CreateNode 1 ''R1'' (Some ''Room''),
           Yield (AddChildInContext 0 1 0 (Some ''hasRoom''))] @
          map (\<lambda>child. Yield (AddBIMObject 0 1 (item_dbId child) (item_name child)))
            (map item_of [0..<600]))) = 601"
    by (simp del: upt_rec_numeral)
  show ?thesis
    unfolding GenerateGeoContext_registered(2)[of "\<lambda>t w. True" all_valid "[0..<600]"
        one_level_layout "map item_of [0..<600]" 0 one_group_tree scenario_graph,
        OF TrueI p ne one_group_tree_run] w
    by (simp add: MAX_NON_SYNCHRONIZED_NODES_def del: upt_rec_numeral)
qed

text \<open>
  C6 fails on the code. A hundred and fifty items, each under a key of its own, on a
  context without children: 300 writes, one flush, and the flush adds 80 * 300 / 150 to
  the progression, which goes from 20 to 180 and then back to 100.
\<close>

theorem C6_progression_leaves_range:
  "progress_history
     (fst (generateGeoContext one_group_per_item (\<lambda>t w. True) 0 one_level_layout
             (numbered_items 150) scenario_graph)) =
   [Num 10, Num 20, Num 180, Num 100]"
proof -
  obtain evs g' where run: "generateGeoContextRec 0 0 (one_group_per_item (numbered_items 150))
      one_level_layout 0 scenario_graph = Inr (evs, g')"
    using rec_total by blast
  have n: "length (numbered_items 150) = 150"
    by (simp add: numbered_items_def del: upt_rec_numeral)
  have w: "length (writes evs) = 300"
    using one_group_per_item_writes[OF run] n by simp
  show ?thesis
    unfolding generateGeoContext_registered(2)[of "\<lambda>t w. True" 0 one_group_per_item
        "numbered_items 150" one_level_layout scenario_graph, OF TrueI run] w n
    by (simp add: MAX_NON_SYNCHRONIZED_NODES_def js_div_def)
qed

text \<open>
  C7. In the older file, when the filter finds no valid item, the run is the call of the
  filter, the call that makes sure of the BIM context, and the return: no tree is built,
  the generator is never started, nothing is waited for, and the graph is as it was.
\<close>

theorem C7_empty_input_returns_at_once:
  assumes "hasProperties referencial (keys layout) = Inr []"
  shows "GenerateGeoContext hasProperties createTmpTree FS context layout referencial g =
           ([HasProperties referencial (keys layout), GetContext], Resolved Undefined g)"
  using assms by (simp add: GenerateGeoContext_def)

theorem C7_empty_input_returns_at_once_witness:
  "all_valid [] (keys scenario_layout) = Inr []
   \<and> GenerateGeoContext all_valid one_group_per_item (\<lambda>t w. False) 0 scenario_layout []
         scenario_graph =
       ([HasProperties [] (keys scenario_layout), GetContext],
        Resolved Undefined scenario_graph)"
proof -
  have h: "all_valid [] (keys scenario_layout) = Inr []"
    by (simp add: all_valid_def)
  show ?thesis
    using h C7_empty_input_returns_at_once[of all_valid "[]" scenario_layout
        one_group_per_item "\<lambda>t w. False" 0 scenario_graph, OF h]
    by simp
qed

text \<open>
  C8. In the newer file an empty list of items does not cut the run short: the
  progression is set to 10, the tree is built, the progression becomes 20, the generator
  is run over the tree (one resolver call when the empty tree is a map, nothing when it
  is an array), nothing is waited for, the progression becomes 100, and the promise
  resolves with the graph unchanged, whatever the file system registers.
\<close>

theorem C8_empty_list_proceeds:
  "(createTmpTree [] = Group [] \<longrightarrow>
      generateGeoContext createTmpTree FS context layout [] g =
        ([Progression (Num 10), CreateTmpTree [], Progression (Num 20),
          Gen (GetChildren context (index (relations layout) 0)),
          Progression (Num 100)],
         Resolved Undefined g))
   \<and> (createTmpTree [] = Leaf [] \<longrightarrow>
      generateGeoContext createTmpTree FS context layout [] g =
        ([Progression (Num 10), CreateTmpTree [], Progression (Num 20),
          Progression (Num 100)],
         Resolved Undefined g))"
  by (simp add: generateGeoContext_def rec_Group PROGRESS_BAR_SIZE_GET_PROPS_def
      PROGRESS_BAR_SIZE_CREATE_TREE_def)

theorem C8_empty_list_proceeds_witness:
  "one_group_per_item [] = Group []
   \<and> generateGeoContext one_group_per_item (\<lambda>t w. False) 0 scenario_layout [] scenario_graph =
        ([Progression (Num 10), CreateTmpTree [], Progression (Num 20),
          Gen (GetChildren 0 (Some ''hasFloor'')),
          Progression (Num 100)],
         Resolved Undefined scenario_graph)
   \<and> generateGeoContext Leaf (\<lambda>t w. False) 0 scenario_layout [] scenario_graph =
        ([Progression (Num 10), CreateTmpTree [], Progression (Num 20),
          Progression (Num 100)],
         Resolved Undefined scenario_graph)"
proof -
  have h: "one_group_per_item [] = Group []"
    by (simp add: one_group_per_item_def)
  have i: "index (relations scenario_layout) 0 = Some ''hasFloor''"
    by (simp add: index_def scenario_layout_def)
  show ?thesis
    using h i
      C8_empty_list_proceeds[of one_group_per_item "\<lambda>t w. False" 0 scenario_layout scenario_graph]
      C8_empty_list_proceeds[of Leaf "\<lambda>t w. False" 0 scenario_layout scenario_graph]
    by simp
qed

text \<open>
  C10. \<open>GenerateGeoContext\<close> never hands a value back: whenever its promise resolves,
  on the short path or after a full materialization, it resolves with \<open>undefined\<close>.
  And it does resolve when the filter succeeds and every write is registered by the
  file system.
\<close>

theorem C10_resolves_with_undefined:
  "(snd (GenerateGeoContext hasProperties createTmpTree FS context layout referencial g) =
      Resolved v g' \<longrightarrow> v = Undefined)
   \<and> ((\<forall>t w. FS t w) \<and> hasProperties referencial (keys layout) = Inr props \<longrightarrow>
        (\<exists>g''. snd (GenerateGeoContext hasProperties createTmpTree FS context layout
                      referencial g) = Resolved Undefined g''))"
proof (intro conjI impI)
  assume "snd (GenerateGeoContext hasProperties createTmpTree FS context layout referencial g) =
      Resolved v g'"
  then show "v = Undefined"
    by (auto simp: GenerateGeoContext_def Let_def
        split: sum.splits prod.splits option.splits if_splits)
next
  assume a: "(\<forall>t w. FS t w) \<and> hasProperties referencial (keys layout) = Inr props"
  show "\<exists>g''. snd (GenerateGeoContext hasProperties createTmpTree FS context layout
                      referencial g) = Resolved Undefined g''"
  proof (cases "props = []")
    case True
    then show ?thesis using a by (simp add: GenerateGeoContext_def)
  next
    case False
    obtain evs g1 where
      run: "GenerateGeoContextRec context context (createTmpTree props) layout 0 g = Inr (evs, g1)"
      using recB_total by blast
    show ?thesis
      using GenerateGeoContext_registered(1)[of FS hasProperties referencial layout props
          _ createTmpTree g evs g1] a False run
      by blast
  qed
qed

theorem C10_resolves_with_undefined_witness:
  "snd (GenerateGeoContext all_valid one_group_tree (\<lambda>t w. True) 0 one_level_layout []
          scenario_graph) = Resolved Undefined scenario_graph
   \<and> all_valid [7] (keys one_level_layout) = Inr [item_of 7]
   \<and> (\<exists>g''. snd (GenerateGeoContext all_valid one_group_tree (\<lambda>t w. True) 0 one_level_layout
                   [7] scenario_graph) = Resolved Undefined g'')"
proof -
  have e: "snd (GenerateGeoContext all_valid one_group_tree (\<lambda>t w. True) 0 one_level_layout []
          scenario_graph) = Resolved Undefined scenario_graph"
    by (simp add: GenerateGeoContext_def all_valid_def)
  have h: "all_valid [7] (keys one_level_layout) = Inr [item_of 7]"
    by (simp add: all_valid_def)
  show ?thesis
    using e h
      C10_resolves_with_undefined[of all_valid one_group_tree "\<lambda>t w. True" 0 one_level_layout
        "[7]" scenario_graph Undefined scenario_graph "[item_of 7]"]
    by simp
qed

section \<open>Running the materializer a second time\<close>

lemma replay_append [simp]: "replay (evs @ evs') = replay evs @ replay evs'"
  by (induction evs rule: replay.induct) auto

lemma replay_leaf [simp]:
  "replay (map (\<lambda>child. Yield (AddBIMObject x p (f child) (h child))) items) =
     map (\<lambda>child. Yield (AddBIMObject x p (f child) (h child))) items"
  by (induction items) auto

lemma find_append_cases:
  "find P (xs @ ys) = (case find P xs of Some c \<Rightarrow> Some c | None \<Rightarrow> find P ys)"
  by (induction xs) auto

lemma getName_grow:
  "graph_nodes h = graph_nodes g @ ns \<Longrightarrow> c < length (graph_nodes g) \<Longrightarrow>
     getName h c = getName g c"
  by (simp add: getName_def nth_append)

lemma getChild_grow:
  assumes "wf_graph g" and "graph_nodes h = graph_nodes g @ ns"
    and "graph_edges h = graph_edges g @ es"
  shows "snd (getChild h p name r) =
     (case snd (getChild g p name r) of
        Some c \<Rightarrow> Some c
      | None \<Rightarrow>
          find (\<lambda>child. getName h child = name)
            (map edge_child (filter (\<lambda>e. edge_parent e = p \<and> edge_relation e = r) es)))"
proof -
  have old: "find (\<lambda>child. getName h child = name) (getChildren g p r) =
      find (\<lambda>child. getName g child = name) (getChildren g p r)"
    by (rule find_cong) (use assms wf_graph_children getName_grow in auto)
  have "getChildren h p r = getChildren g p r @
      map edge_child (filter (\<lambda>e. edge_parent e = p \<and> edge_relation e = r) es)"
    using assms(3) by (simp add: getChildren_def)
  then show ?thesis
    by (simp add: getChild_def find_append_cases old)
qed

lemma lookups_getChild: "lookups g p r names = map (\<lambda>name. snd (getChild g p name r)) names"
  by (simp add: lookups_def getChild_def)

lemma extends_refl: "extends g g"
  by (simp add: extends_def)

lemma extends_trans: "extends g h \<Longrightarrow> extends h k \<Longrightarrow> extends g k"
  by (simp add: extends_def)

lemma below_refl: "below rank p g g"
  by (simp add: below_def)

lemma below_trans: "below rank p g h \<Longrightarrow> below rank p h k \<Longrightarrow> below rank p g k"
  unfolding below_def by (elim exE conjE) (rule_tac x = "ns @ nsa" in exI, auto)

lemma below_mono: "below rank c g h \<Longrightarrow> rank p \<le> rank c \<Longrightarrow> below rank p g h"
  unfolding below_def by (meson le_trans)

lemma below_length: "below rank p g h \<Longrightarrow> length (graph_nodes g) \<le> length (graph_nodes h)"
  by (auto simp: below_def)

lemma below_extends:
  assumes "wf_graph g" and "below rank q g h"
  shows "extends g h"
proof -
  from assms(2) obtain ns es where
    n: "graph_nodes h = graph_nodes g @ ns" and e: "graph_edges h = graph_edges g @ es"
    by (auto simp: below_def)
  show ?thesis
    unfolding extends_def by (simp add: getChild_grow[OF assms(1) n e])
qed

lemma below_frame:
  assumes "wf_graph g" and "below rank c g h" and "rank p < rank c"
  shows "snd (getChild h p name r) = snd (getChild g p name r)"
proof -
  from assms(2) obtain ns es where
    n: "graph_nodes h = graph_nodes g @ ns" and e: "graph_edges h = graph_edges g @ es"
    and f: "\<forall>e \<in> set es. rank c \<le> rank (edge_parent e)"
    by (auto simp: below_def)
  have "filter (\<lambda>e. edge_parent e = p \<and> edge_relation e = r) es = []"
    using f assms(3) by (auto simp: filter_empty_conv)
  then show ?thesis
    by (simp add: getChild_grow[OF assms(1) n e] split: option.splits)
qed

lemma below_frame_lookups:
  "wf_graph g \<Longrightarrow> below rank c g h \<Longrightarrow> rank p < rank c \<Longrightarrow>
     lookups h p r names = lookups g p r names"
  by (simp add: lookups_getChild below_frame)

lemma ranked_wf: "ranked rank g \<Longrightarrow> wf_graph g"
  by (simp add: ranked_def)

lemma ranked_child:
  assumes "ranked rank g" and "snd (getChild g p name r) = Some c"
  shows "rank p < rank c" and "c < length (graph_nodes g)"
proof -
  have "c \<in> set (getChildren g p r)"
    using assms(2) by (simp add: getChild_Some)
  then obtain e where "e \<in> set (graph_edges g)" "edge_parent e = p" "edge_child e = c"
    by (auto simp: getChildren_def)
  then show "rank p < rank c" and "c < length (graph_nodes g)"
    using assms(1) by (auto simp: ranked_def wf_graph_def)
qed

lemma ranked_fresh:
  "ranked rank g \<Longrightarrow> p < length (graph_nodes g) \<Longrightarrow> rank p < rank (length (graph_nodes g))"
  by (simp add: ranked_def)

lemma ranked_attachNew:
  assumes "ranked rank g" and "p < length (graph_nodes g)"
  shows "ranked rank (attachNew g x p name ty r)"
  using assms wf_graph_attachNew[of g p x name ty r]
  by (auto simp: ranked_def)

lemma below_attachNew: "below rank p g (attachNew g x p name ty r)"
  by (simp add: below_def)

lemma getChild_attachNew_new:
  assumes "wf_graph g" and "snd (getChild g p name r) = None"
  shows "snd (getChild (attachNew g x p name ty r) p name r) = Some (length (graph_nodes g))"
  using assms(2)
  by (simp add: getChild_grow[OF assms(1) nodes_attachNew edges_attachNew] getName_def)

lemma getChild_attachNew_other:
  assumes "wf_graph g" and "name' \<noteq> name"
  shows "snd (getChild (attachNew g x p name ty r) q name' r') = snd (getChild g q name' r')"
  using assms(2)
  by (auto simp: getChild_grow[OF assms(1) nodes_attachNew edges_attachNew] getName_def
      split: option.splits)

lemma lookups_attachNew:
  "wf_graph g \<Longrightarrow> name \<notin> set names \<Longrightarrow>
     lookups (attachNew g x p name ty r) q r' names = lookups g q r' names"
  by (auto simp: lookups_getChild intro!: getChild_attachNew_other)

lemma second_run:
  assumes "generateGeoContextRec x p t L d g = Inr (evs, g')"
  shows "ranked rank g \<and> p < length (graph_nodes g) \<and> distinct_keys t \<longrightarrow>
     ranked rank g' \<and> below rank p g g'
     \<and> (\<forall>h. extends g' h \<longrightarrow> generateGeoContextRec x p t L d h = Inr (replay evs, h))"
  using assms
proof (induct rule: run_induct[where
      Q = "\<lambda>p d fs es g evs g'.
        ranked rank g \<and> p < length (graph_nodes g) \<and> distinct (map fst es)
        \<and> (\<forall>entry \<in> set es. distinct_keys (snd entry))
        \<and> fs = lookups g p (index (relations L) d) (map fst es) \<longrightarrow>
        ranked rank g' \<and> below rank p g g'
        \<and> (\<forall>h. extends g' h \<longrightarrow>
              generateGeoContextRec_loop x p
                (lookups h p (index (relations L) d) (map fst es)) es L d h =
              Inr (replay evs, h))"])
  case (Leaf p items d g)
  then show ?case by (simp add: below_refl)
next
  case (Group p children d g evs g')
  then show ?case by (simp add: rec_Group)
next
  case (Nil p d es g)
  then show ?case by (auto simp: below_refl lookups_def)
next
  case (Found p d c fs name v es g evs2 g2 evs3 g3)
  let ?r = "index (relations L) d"
  show ?case
  proof (intro impI)
    assume H: "ranked rank g \<and> p < length (graph_nodes g) \<and> distinct (map fst ((name, v) # es))
        \<and> (\<forall>entry \<in> set ((name, v) # es). distinct_keys (snd entry))
        \<and> Some c # fs = lookups g p ?r (map fst ((name, v) # es))"
    then have rg: "ranked rank g" and pl: "p < length (graph_nodes g)"
      and dk: "distinct (map fst es)" "\<forall>entry \<in> set es. distinct_keys (snd entry)"
        "distinct_keys v"
      and found: "snd (getChild g p name ?r) = Some c" and fs: "fs = lookups g p ?r (map fst es)"
      by auto
    have rc: "rank p < rank c" "c < length (graph_nodes g)"
      using ranked_child[OF rg found] by auto
    from Found(2) rg rc dk have g2: "ranked rank g2" "below rank c g g2"
      and r2: "\<And>h. extends g2 h \<Longrightarrow> generateGeoContextRec x c v L (Suc d) h = Inr (replay evs2, h)"
      by auto
    have fs2: "fs = lookups g2 p ?r (map fst es)"
      using fs below_frame_lookups[OF ranked_wf[OF rg] g2(2) rc(1)] by simp
    have pl2: "p < length (graph_nodes g2)"
      using pl below_length[OF g2(2)] by simp
    from Found(4) g2(1) pl2 dk fs2 have g3: "ranked rank g3" "below rank p g2 g3"
      and r3: "\<And>h. extends g3 h \<Longrightarrow>
          generateGeoContextRec_loop x p (lookups h p ?r (map fst es)) es L d h =
          Inr (replay evs3, h)"
      by auto
    have b: "below rank p g g3"
      using below_trans[OF below_mono[OF g2(2)] g3(2)] rc(1) by simp
    have e12: "extends g g2" using below_extends[OF ranked_wf[OF rg] g2(2)] .
    have e23: "extends g2 g3" using below_extends[OF ranked_wf[OF g2(1)] g3(2)] .
    have "generateGeoContextRec_loop x p (lookups h p ?r (map fst ((name, v) # es)))
            ((name, v) # es) L d h = Inr (replay (evs2 @ evs3), h)"
      if eh: "extends g3 h" for h
    proof -
      have "extends g h" using e12 e23 eh extends_trans by blast
      then have f: "snd (getChild h p name ?r) = Some c"
        using found by (simp add: extends_def)
      have "extends g2 h" using e23 eh extends_trans by blast
      then show ?thesis
        by (simp add: f loop_Some r2 r3[OF eh])
    qed
    then show "ranked rank g3 \<and> below rank p g g3
        \<and> (\<forall>h. extends g3 h \<longrightarrow>
              generateGeoContextRec_loop x p (lookups h p ?r (map fst ((name, v) # es)))
                ((name, v) # es) L d h = Inr (replay (evs2 @ evs3), h))"
      using g3(1) b by blast
  qed
next
  case (Created p d fs name v es g evs2 g2 evs3 g3)
  let ?r = "index (relations L) d"
  let ?g1 = "attachNew g x p name (index (types L) d) ?r"
  let ?new = "length (graph_nodes g)"
  show ?case
  proof (intro impI)
    assume H: "ranked rank g \<and> p < length (graph_nodes g) \<and> distinct (map fst ((name, v) # es))
        \<and> (\<forall>entry \<in> set ((name, v) # es). distinct_keys (snd entry))
        \<and> None # fs = lookups g p ?r (map fst ((name, v) # es))"
    then have rg: "ranked rank g" and pl: "p < length (graph_nodes g)"
      and dk: "distinct (map fst es)" "\<forall>entry \<in> set es. distinct_keys (snd entry)"
        "distinct_keys v"
      and nn: "name \<notin> set (map fst es)"
      and nf: "snd (getChild g p name ?r) = None" and fs: "fs = lookups g p ?r (map fst es)"
      by auto
    have wf: "wf_graph g" using ranked_wf[OF rg] .
    have rn: "rank p < rank ?new" using ranked_fresh[OF rg pl] .
    have g1: "ranked rank ?g1" using ranked_attachNew[OF rg pl] .
    from Created(2) g1 dk have g2: "ranked rank g2" "below rank ?new ?g1 g2"
      and r2: "\<And>h. extends g2 h \<Longrightarrow>
          generateGeoContextRec x ?new v L (Suc d) h = Inr (replay evs2, h)"
      by auto
    have fs2: "fs = lookups g2 p ?r (map fst es)"
      using fs below_frame_lookups[OF ranked_wf[OF g1] g2(2) rn] lookups_attachNew[OF wf nn]
      by simp
    have pl2: "p < length (graph_nodes g2)"
      using pl below_length[OF g2(2)] by simp
    from Created(4) g2(1) pl2 dk fs2 have g3: "ranked rank g3" "below rank p g2 g3"
      and r3: "\<And>h. extends g3 h \<Longrightarrow>
          generateGeoContextRec_loop x p (lookups h p ?r (map fst es)) es L d h =
          Inr (replay evs3, h)"
      by auto
    have b12: "below rank p ?g1 g2" using below_mono[OF g2(2)] rn by simp
    have b: "below rank p g g3"
      using below_trans[OF below_trans[OF below_attachNew b12] g3(2)] .
    have e12: "extends ?g1 g2" using below_extends[OF ranked_wf[OF g1] g2(2)] .
    have e23: "extends g2 g3" using below_extends[OF ranked_wf[OF g2(1)] g3(2)] .
    have new: "snd (getChild ?g1 p name ?r) = Some ?new"
      using getChild_attachNew_new[OF wf nf] .
    have "generateGeoContextRec_loop x p (lookups h p ?r (map fst ((name, v) # es)))
            ((name, v) # es) L d h = Inr (replay evs2 @ replay evs3, h)"
      if eh: "extends g3 h" for h
    proof -
      have "extends ?g1 h" using e12 e23 eh extends_trans by blast
      then have f: "snd (getChild h p name ?r) = Some ?new"
        using new by (simp add: extends_def)
      have "extends g2 h" using e23 eh extends_trans by blast
      then show ?thesis
        by (simp add: f loop_Some r2 r3[OF eh])
    qed
    then show "ranked rank g3 \<and> below rank p g g3
        \<and> (\<forall>h. extends g3 h \<longrightarrow>
              generateGeoContextRec_loop x p (lookups h p ?r (map fst ((name, v) # es)))
                ((name, v) # es) L d h =
              Inr (replay (CreateNode ?new name (index (types L) d) #
                     Yield (AddChildInContext p ?new x ?r) # evs2 @ evs3), h))"
      using g3(1) b by simp
  qed
qed

lemma effects_replay: "effects (replay evs) = replay (effects evs)"
  by (induction evs rule: replay.induct) auto

text \<open>
  C1, as stated, fails when the graph has a cycle. In \<open>cyclic_graph\<close> the context is its
  own child, so the first run comes back to the context while the lookups made on entry
  are pending: it creates a node B under the context in the subtree of A, and then,
  from the stale lookup, a second node B, under which it creates Z. The second run
  finds the first B, which has no child Z, and creates a fifth node.
\<close>

theorem C1_counterexample:
  "generateGeoContextRec 0 0 cyclic_tree same_relation_layout 0 cyclic_graph =
     Inr ([GetChildren 0 (Some ''hasPart''), GetChildren 0 (Some ''hasPart''),
           CreateNode 1 ''B'' (Some ''Room''),
           Yield (AddChildInContext 0 1 0 (Some ''hasPart'')),
           Yield (AddBIMObject 0 1 1 ''Chair''),
           CreateNode 2 ''B'' (Some ''Zone''),
           Yield (AddChildInContext 0 2 0 (Some ''hasPart'')),
           GetChildren 2 (Some ''hasPart''), CreateNode 3 ''Z'' (Some ''Room''),
           Yield (AddChildInContext 2 3 0 (Some ''hasPart'')),
           Yield (AddBIMObject 0 3 2 ''Desk'')],
          cyclic_graph_after)
   \<and> generateGeoContextRec 0 0 cyclic_tree same_relation_layout 0 cyclic_graph_after =
     Inr ([GetChildren 0 (Some ''hasPart''), GetChildren 0 (Some ''hasPart''),
           Yield (AddBIMObject 0 1 1 ''Chair''),
           GetChildren 1 (Some ''hasPart''), CreateNode 4 ''Z'' (Some ''Room''),
           Yield (AddChildInContext 1 4 0 (Some ''hasPart'')),
           Yield (AddBIMObject 0 4 2 ''Desk'')],
          \<lparr>graph_nodes =
             graph_nodes cyclic_graph_after @ [\<lparr>node_name = ''Z'', node_type = Some ''Room''\<rparr>],
           graph_edges =
             graph_edges cyclic_graph_after @
             [\<lparr>edge_parent = 1, edge_relation = Some ''hasPart'', edge_child = 4,
                edge_context = 0\<rparr>]\<rparr>)"
  by (simp add: cyclic_tree_def same_relation_layout_def cyclic_graph_def
      cyclic_graph_after_def store_defs run_simps)

text \<open>
  C1, amended. From a ranked graph (well formed, without a cycle), an existing parent
  and a tree whose maps hold every key once, the second run, started from the graph the
  first run left, finds every name: it creates no node and yields no creation write, it
  leaves the graph as the first run left it, and its events are those of the first run
  without the creations, so the lookups and the attachments of the items are made again.
  In the older file likewise, apart from its resolver calls.
\<close>

theorem C1_second_run_creates_nothing:
  assumes "ranked rank g" and "parent < length (graph_nodes g)" and "distinct_keys t"
  shows "(\<exists>evs g1. generateGeoContextRec ctx parent t layout depth g = Inr (evs, g1)
            \<and> generateGeoContextRec ctx parent t layout depth g1 = Inr (replay evs, g1))
       \<and> (\<exists>evs g1 evs2. GenerateGeoContextRec ctx parent t layout depth g = Inr (evs, g1)
            \<and> GenerateGeoContextRec ctx parent t layout depth g1 = Inr (evs2, g1)
            \<and> effects evs2 = replay (effects evs))"
proof -
  obtain evs g1 where a: "generateGeoContextRec ctx parent t layout depth g = Inr (evs, g1)"
    using rec_total by blast
  have a2: "generateGeoContextRec ctx parent t layout depth g1 = Inr (replay evs, g1)"
    using second_run[OF a, of rank] assms extends_refl by blast
  obtain evsB where b: "GenerateGeoContextRec ctx parent t layout depth g = Inr (evsB, g1)"
    and eb: "effects evsB = effects evs"
    using run_runB[OF a] by blast
  obtain evsB2 where b2: "GenerateGeoContextRec ctx parent t layout depth g1 = Inr (evsB2, g1)"
    and eb2: "effects evsB2 = effects (replay evs)"
    using run_runB[OF a2] by blast
  have "effects evsB2 = replay (effects evsB)"
    using eb eb2 by (simp add: effects_replay)
  then show ?thesis using a a2 b b2 by blast
qed

theorem C1_second_run_creates_nothing_witness:
  "ranked (\<lambda>k. k) reuse_graph \<and> 0 < length (graph_nodes reuse_graph)
   \<and> distinct_keys scenario_tree
   \<and> generateGeoContextRec 0 0 scenario_tree scenario_layout 0 reuse_graph =
       Inr ([GetChildren 0 (Some ''hasFloor''),
             GetChildren 1 (Some ''hasRoom''),
             CreateNode 2 ''F1'' (Some ''Floor''),
             Yield (AddChildInContext 1 2 0 (Some ''hasRoom'')),
             Yield (AddBIMObject 0 2 1 ''Chair'')],
            \<lparr>graph_nodes = graph_nodes reuse_graph @
               [\<lparr>node_name = ''F1'', node_type = Some ''Floor''\<rparr>],
             graph_edges = graph_edges reuse_graph @
               [\<lparr>edge_parent = 1, edge_relation = Some ''hasRoom'', edge_child = 2,
                  edge_context = 0\<rparr>]\<rparr>)
   \<and> generateGeoContextRec 0 0 scenario_tree scenario_layout 0
         \<lparr>graph_nodes = graph_nodes reuse_graph @
            [\<lparr>node_name = ''F1'', node_type = Some ''Floor''\<rparr>],
          graph_edges = graph_edges reuse_graph @
            [\<lparr>edge_parent = 1, edge_relation = Some ''hasRoom'', edge_child = 2,
               edge_context = 0\<rparr>]\<rparr> =
       Inr ([GetChildren 0 (Some ''hasFloor''),
             GetChildren 1 (Some ''hasRoom''),
             Yield (AddBIMObject 0 2 1 ''Chair'')],
            \<lparr>graph_nodes = graph_nodes reuse_graph @
               [\<lparr>node_name = ''F1'', node_type = Some ''Floor''\<rparr>],
             graph_edges = graph_edges reuse_graph @
               [\<lparr>edge_parent = 1, edge_relation = Some ''hasRoom'', edge_child = 2,
                  edge_context = 0\<rparr>]\<rparr>)"
proof -
  have h1: "ranked (\<lambda>k. k) reuse_graph"
    by (simp add: ranked_def wf_graph_def reuse_graph_def)
  have h2: "0 < length (graph_nodes reuse_graph)"
    by (simp add: reuse_graph_def)
  have h3: "distinct_keys scenario_tree"
    by (simp add: scenario_tree_def)
  have e: "generateGeoContextRec 0 0 scenario_tree scenario_layout 0 reuse_graph =
       Inr ([GetChildren 0 (Some ''hasFloor''),
             GetChildren 1 (Some ''hasRoom''),
             CreateNode 2 ''F1'' (Some ''Floor''),
             Yield (AddChildInContext 1 2 0 (Some ''hasRoom'')),
             Yield (AddBIMObject 0 2 1 ''Chair'')],
            \<lparr>graph_nodes = graph_nodes reuse_graph @
               [\<lparr>node_name = ''F1'', node_type = Some ''Floor''\<rparr>],
             graph_edges = graph_edges reuse_graph @
               [\<lparr>edge_parent = 1, edge_relation = Some ''hasRoom'', edge_child = 2,
                  edge_context = 0\<rparr>]\<rparr>)"
    by (simp add: reuse_graph_def scenario_layout_def scenario_tree_def store_defs run_simps)
  show ?thesis
    using h1 h2 h3 e
      C1_second_run_creates_nothing[OF h1 h2 h3, of 0 scenario_layout 0, THEN conjunct1]
    by auto
qed

end
